theory Spec2Isabelle
  imports Complex_Main "HOL-Library.Multiset"
begin

section \<open>Errors raised by the Python code\<close>

datatype error =
    UnboundLocalError
  | ValueError
  | TypeError
  | AttributeError
  | KeyError
  | IndexError
  | RuntimeError
  | ZeroDivisionError

section \<open>CnC pair construction (\<open>domino/cnc.py\<close>)\<close>

text \<open>
  A datapanel is a list of rows. The columns read by the code under study are kept as
  record fields; \<open>ident\<close> is the \<open>id\<close> column.
\<close>

record 'x row =
  input :: 'x
  target :: int
  ident :: nat
  group_id :: int

text \<open>
  The state of numpy's global generator is an infinite stream of raw draws, each
  uniform over a range that the bound of the request divides. \<open>randint(0, high, n)\<close>
  reduces the next \<open>n\<close> raw draws to indices below \<open>high\<close> and advances the generator.
  \<open>np.random.choice(a, size)\<close> raises \<open>ValueError\<close> on an empty population unless no
  sample is taken; otherwise it takes \<open>randint(0, len(a), size)\<close> and returns the entries
  of \<open>a\<close> at these indices, so an entry may be taken more than once.
\<close>

type_synonym gen = "nat \<Rightarrow> nat"

definition randint :: "nat \<Rightarrow> nat \<Rightarrow> gen \<Rightarrow> nat list \<times> gen" where
  "randint high n g = (map (\<lambda>k. g k mod high) [0..<n], \<lambda>k. g (k + n))"

definition choice :: "'a list \<Rightarrow> nat \<Rightarrow> gen \<Rightarrow> error + ('a list \<times> gen)" where
  "choice a n g =
     (if a = [] \<and> 0 < n then Inl ValueError
      else (case randint (length a) n g of (idx, g') \<Rightarrow> Inr (map ((!) a) idx, g')))"

text \<open>
  \<open>contrastive_loader\<close>: \<open>positive_entry\<close> and \<open>negative_entry\<close> are bound only in the
  branches for anchor group 0 and 3; the \<open>return\<close> reads them, which is an
  \<open>UnboundLocalError\<close> for any other anchor group.
\<close>

definition contrastive_loader ::
  "(string \<rightharpoonup> int) \<Rightarrow> 'r list \<times> 'r list \<Rightarrow> 'r list \<times> 'r list \<Rightarrow> nat \<Rightarrow> nat \<Rightarrow> gen
     \<Rightarrow> error + (('r list \<times> 'r list) \<times> gen)" where
  "contrastive_loader input_dict positive_entries negative_entries num_p num_n g =
     (case positive_entries of (positive_entries_0, positive_entries_3) \<Rightarrow>
      case negative_entries of (negative_entries_0, negative_entries_3) \<Rightarrow>
      case input_dict ''group_id'' of
        None \<Rightarrow> Inl KeyError
      | Some anchor_group_id \<Rightarrow>
          if anchor_group_id = 0 then
            (case choice positive_entries_0 num_p g of
               Inl e \<Rightarrow> Inl e
             | Inr (positive_entry, g1) \<Rightarrow>
                 (case choice negative_entries_0 num_n g1 of
                    Inl e \<Rightarrow> Inl e
                  | Inr (negative_entry, g2) \<Rightarrow> Inr ((positive_entry, negative_entry), g2)))
          else if anchor_group_id = 3 then
            (case choice positive_entries_3 num_p g of
               Inl e \<Rightarrow> Inl e
             | Inr (positive_entry, g1) \<Rightarrow>
                 (case choice negative_entries_3 num_n g1 of
                    Inl e \<Rightarrow> Inl e
                  | Inr (negative_entry, g2) \<Rightarrow> Inr ((positive_entry, negative_entry), g2)))
          else Inl UnboundLocalError)"

text \<open>
  \<open>load_contrastive_dp\<close> returns the majority rows together with the lazily evaluated
  column \<open>contrastive_pair\<close>: one closure per kept row, run against the generator at
  each access. The parameter \<open>num_a\<close> is not read by the source.
\<close>

record 'x contrastive_dp =
  rows :: "'x row list"
  contrastive_pair :: "(gen \<Rightarrow> error + (('x row list \<times> 'x row list) \<times> gen)) list"

definition load_contrastive_dp ::
  "'x row list \<Rightarrow> nat \<Rightarrow> nat \<Rightarrow> nat \<Rightarrow> 'x contrastive_dp" where
  "load_contrastive_dp dp num_a num_p num_n =
     (let positive_entries_0 = filter (\<lambda>r. group_id r = 2) dp;
          negative_entries_0 = filter (\<lambda>r. group_id r = 1) dp;
          positive_entries_3 = filter (\<lambda>r. group_id r = 1) dp;
          negative_entries_3 = filter (\<lambda>r. group_id r = 2) dp;
          majority = filter (\<lambda>r. group_id r = 0 \<or> group_id r = 3) dp;
          contastive_col =
            map (\<lambda>r. contrastive_loader [''group_id'' \<mapsto> group_id r]
                        (positive_entries_0, positive_entries_3)
                        (negative_entries_0, negative_entries_3) num_p num_n)
                majority
      in \<lparr>rows = majority, contrastive_pair = contastive_col\<rparr>)"

section \<open>The contrastive loss (\<open>SupervisedContrastiveLoss\<close> in \<open>domino/cnc.py\<close>)\<close>

text \<open>
  Tensor arithmetic is modelled over the real numbers, without rounding, inside the
  range of float32; a Python or tensor scalar that float32 arithmetic leaves at
  \<open>inf\<close> or \<open>nan\<close> is \<open>NonFinite\<close>. A 0-d tensor is \<open>T0\<close>, a 1-d tensor of
  finite entries is \<open>T1\<close>; an embedding is a vector \<open>real list\<close>, a batch of
  embeddings a list of vectors.
\<close>

datatype pyfloat = Fin real | NonFinite

datatype tensor = T0 pyfloat | T1 "real list"

text \<open>The largest finite float32 and the smallest positive one.\<close>

definition flt_max :: real where
  "flt_max = (2 - 1 / 2 ^ 23) * 2 ^ 127"

definition flt_min :: real where
  "flt_min = 1 / 2 ^ 149"

definition torch_norm :: "real list \<Rightarrow> real" where
  "torch_norm v = sqrt (\<Sum>x\<leftarrow>v. x\<^sup>2)"

text \<open>
  \<open>nn.CosineSimilarity(dim=1)\<close> with its default \<open>eps = 1e-8\<close>, for one pair of
  vectors: the dot product over \<open>max(\<parallel>x1\<parallel> \<sqdot> \<parallel>x2\<parallel>, eps)\<close>.
\<close>

definition CosineSimilarity :: "real list \<Rightarrow> real list \<Rightarrow> real" where
  "CosineSimilarity x1 x2 =
     (\<Sum>(a, b)\<leftarrow>zip x1 x2. a * b) / max (torch_norm x1 * torch_norm x2) (1 / 10 ^ 8)"

record SupervisedContrastiveLoss =
  temperature :: real
  sim :: "real list \<Rightarrow> real list \<Rightarrow> real"

text \<open>
  The constructor reads \<open>config["temperature"]\<close> (a \<open>KeyError\<close> when the key is
  missing) and stores it as it is.
\<close>

definition SupervisedContrastiveLoss_init ::
  "(string \<rightharpoonup> real) \<Rightarrow> error + SupervisedContrastiveLoss" where
  "SupervisedContrastiveLoss_init config =
     (case config ''temperature'' of
        None \<Rightarrow> Inl KeyError
      | Some t \<Rightarrow> Inr \<lparr>temperature = t, sim = CosineSimilarity\<rparr>)"

text \<open>
  The two kinds of object that reach \<open>forward\<close>: the tuple
  \<open>(a_input, p_inputs, n_inputs)\<close>, and an \<open>nn.Sequential\<close> encoder, given by the
  number of its child modules and the function it computes on a batch of inputs.
\<close>

datatype 'i pyarg =
    Batch 'i "'i list" "'i list"
  | Sequential nat "'i list \<Rightarrow> real list list"

definition mean :: "real list \<Rightarrow> real" where
  "mean xs = sum_list xs / real (length xs)"

text \<open>
  \<open>forward(self, encoder, contrastive_batch)\<close>. Unpacking \<open>contrastive_batch\<close> into three
  names works on a 3-tuple; on an \<open>nn.Sequential\<close> it iterates over the child modules
  (\<open>ValueError\<close> unless there are three, and then \<open>a_input.unsqueeze\<close> is an
  \<open>AttributeError\<close>). Calling a tuple as \<open>encoder\<close> is a \<open>TypeError\<close>.

  The anchor goes through the encoder as a batch of one and is squeezed to its vector;
  the similarity module broadcasts it against every row of the other batch. With
  embeddings of width 1 the squeeze leaves no dimension 1 and \<open>CosineSimilarity(dim=1)\<close>
  raises \<open>IndexError\<close>; rows of another width than the anchor's do not broadcast
  (\<open>RuntimeError\<close>).

  No step checks the temperature. Division by a zero temperature gives \<open>inf\<close> or
  \<open>nan\<close> in every entry, the mean of no positives is \<open>nan\<close>, an exponential below
  the float32 range is 0 with logarithm \<open>-inf\<close>, and a denominator above it is \<open>inf\<close>:
  in each of these cases the loss returned is not finite.
\<close>

definition forward ::
  "SupervisedContrastiveLoss \<Rightarrow> 'i pyarg \<Rightarrow> 'i pyarg \<Rightarrow> error + tensor" where
  "forward self encoder contrastive_batch =
     (case contrastive_batch of
        Sequential k f \<Rightarrow> if k = 3 then Inl AttributeError else Inl ValueError
      | Batch a_input p_inputs n_inputs \<Rightarrow>
          (case encoder of
             Batch x y z \<Rightarrow> Inl TypeError
           | Sequential k enc \<Rightarrow>
               (let a_output = concat (enc [a_input]);
                    p_outputs = enc p_inputs;
                    n_outputs = enc n_inputs
                in if length a_output = 1 then Inl IndexError
                   else if \<not> list_all (\<lambda>v. length v = length a_output) (p_outputs @ n_outputs)
                   then Inl RuntimeError
                   else
                     (let pos_sim = map (sim self a_output) p_outputs;
                          pos_exp = map (\<lambda>s. exp (s / temperature self)) pos_sim;
                          neg_sim = map (sim self a_output) n_outputs;
                          neg_exp = map (\<lambda>s. exp (s / temperature self)) neg_sim;
                          neg_exp_sum = sum_list neg_exp;
                          log_probs = map (\<lambda>p. ln p - ln (p + neg_exp_sum)) pos_exp;
                          loss = map (\<lambda>l. - 1 * l) log_probs
                      in if temperature self = 0 \<or> p_outputs = []
                            \<or> \<not> list_all (\<lambda>p. flt_min \<le> p \<and> p + neg_exp_sum \<le> flt_max) pos_exp
                         then Inr (T0 NonFinite)
                         else Inr (T0 (Fin (mean loss)))))))"

section \<open>Releasing tensors (\<open>free_gpu\<close> in \<open>domino/vision_ks.py\<close>)\<close>

text \<open>
  Tensor objects live in a heap, a list addressed by position. \<open>detach()\<close> allocates a
  new object over the same values that requires no gradient; \<open>cpu()\<close> returns the
  object itself when it is on the CPU already and allocates a copy otherwise. Neither
  writes to an existing object.
\<close>

datatype device = CPU | CUDA

record tensor_obj =
  payload :: tensor
  device :: device
  requires_grad :: bool

type_synonym heap = "tensor_obj list"

definition detach :: "heap \<Rightarrow> nat \<Rightarrow> error + (heap \<times> nat)" where
  "detach h a =
     (if a < length h then Inr (h @ [(h ! a)\<lparr>requires_grad := False\<rparr>], length h)
      else Inl AttributeError)"

definition cpu :: "heap \<Rightarrow> nat \<Rightarrow> error + (heap \<times> nat)" where
  "cpu h a =
     (if a < length h then
        (if device (h ! a) = CPU then Inr (h, a)
         else Inr (h @ [(h ! a)\<lparr>device := CPU\<rparr>], length h))
      else Inl AttributeError)"

text \<open>
  The loop of \<open>free_gpu\<close>, with the local variable \<open>tensor\<close> as an optional address:
  the \<open>for\<close> binds it to the next element, the assignment rebinds it to the detached
  CPU object, and \<open>del tensor\<close> removes the binding.
\<close>

fun free_gpu_loop :: "heap \<Rightarrow> nat list \<Rightarrow> bool \<Rightarrow> nat option \<Rightarrow> error + (heap \<times> nat option)" where
  "free_gpu_loop h [] delete tensor_var = Inr (h, tensor_var)"
| "free_gpu_loop h (t # ts) delete tensor_var =
     (case detach h t of
        Inl e \<Rightarrow> Inl e
      | Inr (h1, d) \<Rightarrow>
          (case cpu h1 d of
             Inl e \<Rightarrow> Inl e
           | Inr (h2, c) \<Rightarrow> free_gpu_loop h2 ts delete (if delete then None else Some c)))"

text \<open>The function returns nothing; its frame, with \<open>tensor\<close>, is dropped.\<close>

definition free_gpu :: "heap \<Rightarrow> nat list \<Rightarrow> bool \<Rightarrow> error + heap" where
  "free_gpu h tensors delete =
     (case free_gpu_loop h tensors delete None of
        Inl e \<Rightarrow> Inl e
      | Inr (h', tensor_var) \<Rightarrow> Inr h')"

definition item :: "heap \<Rightarrow> nat \<Rightarrow> error + pyfloat" where
  "item h a =
     (if a < length h then
        (case payload (h ! a) of
           T0 x \<Rightarrow> Inr x
         | T1 xs \<Rightarrow> (case xs of [x] \<Rightarrow> Inr (Fin x) | _ \<Rightarrow> Inl ValueError))
      else Inl AttributeError)"

section \<open>The contrastive part of \<open>Classifier.training_step\<close>\<close>

text \<open>
  The fields of the mini-batch that the contrastive loop reads, named after the local
  variables they are bound to. \<open>all_p_inputs\<close> and \<open>all_n_inputs\<close> come from
  \<open>batch["contrastive_input_pair"]\<close> and are read only by the \<open>cnc\<close> method. The
  targets of the companions (\<open>p_targets\<close>, \<open>n_targets\<close>) are used only after the loop,
  by the classification loss, and are left out.
\<close>

record 'i batch =
  a_inputs :: "'i list"
  a_targets :: "int list"
  gaze_features :: "real list list"
  all_p_inputs :: "'i list list"
  all_n_inputs :: "'i list list"

record 'i Classifier =
  cnc :: bool
  cnc_gaze :: bool
  randcon :: bool
  contrastive_loss :: SupervisedContrastiveLoss
  encoder :: "'i pyarg"
  model_device :: device

text \<open>
  \<open>torch.median\<close> of a 1-d tensor is the lower of the two middle values when the
  number of entries is even.
\<close>

definition torch_median :: "real list \<Rightarrow> real" where
  "torch_median xs = sort xs ! ((length xs - 1) div 2)"

definition mask_sum :: "bool list \<Rightarrow> nat" where
  "mask_sum m = length (filter (\<lambda>b. b) m)"

definition mask_select :: "'a list \<Rightarrow> bool list \<Rightarrow> 'a list" where
  "mask_select xs m = map fst (filter snd (zip xs m))"

text \<open>The state of torch's generator: a stream of draws from \<open>[0, 1)\<close>.\<close>

type_synonym rgen = "nat \<Rightarrow> real"

definition rand_like :: "real list \<Rightarrow> rgen \<Rightarrow> real list \<times> rgen" where
  "rand_like t rg = (map rg [0..<length t], \<lambda>k. rg (k + length t))"

text \<open>Lines 256-264: threshold and masks from the distance vector.\<close>

definition gaze_masks :: "real list \<Rightarrow> int list \<Rightarrow> nat \<Rightarrow> real \<times> bool list \<times> bool list" where
  "gaze_masks gfeat_dist targets a_ix =
     (let alpha = torch_median gfeat_dist;
          same_class = map (\<lambda>t. t = targets ! a_ix) targets;
          n_mask = map2 (\<lambda>d s. d > alpha \<and> s) gfeat_dist same_class;
          p_mask = (map2 (\<lambda>d s. d \<le> alpha \<and> s) gfeat_dist same_class)[a_ix := False]
      in (alpha, p_mask, n_mask))"

text \<open>
  Lines 244-272: the companions of anchor \<open>a_ix\<close>. \<open>None\<close> is the \<open>continue\<close> of the
  source. Reads past the end of a tensor are \<open>IndexError\<close>, masks of the wrong length
  too, tensors of different lengths under \<open>logical_and\<close> a \<open>RuntimeError\<close>; with none of
  the three method flags set, \<open>p_inputs\<close> is unbound at the call that follows.
\<close>

definition select_companions ::
  "'i Classifier \<Rightarrow> 'i batch \<Rightarrow> nat \<Rightarrow> rgen \<Rightarrow> error + (('i list \<times> 'i list) option \<times> rgen)" where
  "select_companions self batch a_ix rg =
     (if cnc self then
        (if a_ix < length (all_p_inputs batch) \<and> a_ix < length (all_n_inputs batch)
         then Inr (Some (all_p_inputs batch ! a_ix, all_n_inputs batch ! a_ix), rg)
         else Inl IndexError)
      else if cnc_gaze self \<or> randcon self then
        (if length (gaze_features batch) \<le> a_ix then Inl IndexError
         else
           (let a_gfeats = gaze_features batch ! a_ix;
                norms = map (\<lambda>f. torch_norm (map2 (\<lambda>x y. x - y) f a_gfeats)) (gaze_features batch);
                (gfeat_dist, rg') = (if randcon self then rand_like norms rg else (norms, rg))
            in if length (a_targets batch) \<le> a_ix then Inl IndexError
               else if length gfeat_dist \<noteq> length (a_targets batch) then Inl RuntimeError
               else
                 (case gaze_masks gfeat_dist (a_targets batch) a_ix of (alpha, p_mask, n_mask) \<Rightarrow>
                    if mask_sum p_mask < 2 \<or> mask_sum n_mask < 2 then Inr (None, rg')
                    else if length (a_inputs batch) \<noteq> length p_mask then Inl IndexError
                    else Inr (Some (mask_select (a_inputs batch) p_mask,
                                    mask_select (a_inputs batch) n_mask), rg'))))
      else Inl UnboundLocalError)"

text \<open>
  \<open>c_loss, pos_sim_, neg_sim_ = ...\<close>: a 0-d tensor cannot be iterated over
  (\<open>TypeError\<close>); a 1-d tensor unpacks into its entries if there are exactly three.
\<close>

definition unpack3 :: "tensor \<Rightarrow> error + (tensor \<times> tensor \<times> tensor)" where
  "unpack3 t =
     (case t of
        T0 x \<Rightarrow> Inl TypeError
      | T1 xs \<Rightarrow>
          (case xs of
             [a, b, c] \<Rightarrow> Inr (T0 (Fin a), T0 (Fin b), T0 (Fin c))
           | _ \<Rightarrow> Inl ValueError))"

definition tensor_item :: "tensor \<Rightarrow> error + pyfloat" where
  "tensor_item t =
     (case t of
        T0 x \<Rightarrow> Inr x
      | T1 xs \<Rightarrow> (case xs of [x] \<Rightarrow> Inr (Fin x) | _ \<Rightarrow> Inl ValueError))"

text \<open>Python float addition and division by a length; \<open>inf\<close> and \<open>nan\<close> stay.\<close>

definition fadd :: "pyfloat \<Rightarrow> pyfloat \<Rightarrow> pyfloat" where
  "fadd x y = (case x of NonFinite \<Rightarrow> NonFinite
               | Fin a \<Rightarrow> (case y of NonFinite \<Rightarrow> NonFinite | Fin b \<Rightarrow> Fin (a + b)))"

definition fdiv :: "pyfloat \<Rightarrow> nat \<Rightarrow> pyfloat" where
  "fdiv x n = (case x of NonFinite \<Rightarrow> NonFinite | Fin a \<Rightarrow> Fin (a / real n))"

text \<open>
  Lines 243-283, one iteration. The state is the heap, the three running sums and the
  generator. The call at line 274 passes the input tuple first and the encoder second.
  \<open>c_loss.backward()\<close> adds to the gradients of the parameters, which are not part of
  this state.
\<close>

type_synonym loop_state = "heap \<times> pyfloat \<times> pyfloat \<times> pyfloat \<times> rgen"

definition anchor_step ::
  "'i Classifier \<Rightarrow> 'i batch \<Rightarrow> nat \<Rightarrow> loop_state \<Rightarrow> error + loop_state" where
  "anchor_step self batch a_ix st =
     (case st of (h, contrastive_loss_sum, pos_sim, neg_sim, rg) \<Rightarrow>
      case select_companions self batch a_ix rg of
        Inl e \<Rightarrow> Inl e
      | Inr (None, rg') \<Rightarrow> Inr (h, contrastive_loss_sum, pos_sim, neg_sim, rg')
      | Inr (Some (p_inputs, n_inputs), rg') \<Rightarrow>
          (case forward (contrastive_loss self)
                  (Batch (a_inputs batch ! a_ix) p_inputs n_inputs) (encoder self) of
             Inl e \<Rightarrow> Inl e
           | Inr out \<Rightarrow>
               (case unpack3 out of
                  Inl e \<Rightarrow> Inl e
                | Inr (c_loss, pos_sim_t, neg_sim_t) \<Rightarrow>
                    (let c = length h;
                         h1 = h @ [\<lparr>payload = c_loss, device = model_device self,
                                    requires_grad = True\<rparr>]
                     in case free_gpu h1 [c] True of
                          Inl e \<Rightarrow> Inl e
                        | Inr h2 \<Rightarrow>
                            (case item h2 c of
                               Inl e \<Rightarrow> Inl e
                             | Inr l \<Rightarrow>
                                 (case tensor_item pos_sim_t of
                                    Inl e \<Rightarrow> Inl e
                                  | Inr p \<Rightarrow>
                                      (case tensor_item neg_sim_t of
                                         Inl e \<Rightarrow> Inl e
                                       | Inr n \<Rightarrow>
                                           Inr (h2, fadd contrastive_loss_sum l,
                                                fadd pos_sim p, fadd neg_sim n, rg'))))))))"

fun anchor_loop ::
  "'i Classifier \<Rightarrow> 'i batch \<Rightarrow> nat list \<Rightarrow> loop_state \<Rightarrow> error + loop_state" where
  "anchor_loop self batch [] st = Inr st"
| "anchor_loop self batch (a_ix # rest) st =
     (case anchor_step self batch a_ix st of
        Inl e \<Rightarrow> Inl e
      | Inr st' \<Rightarrow> anchor_loop self batch rest st')"

text \<open>
  Lines 240-287: the loop over \<open>range(len(a_inputs))\<close> and the three divisions by
  \<open>len(a_inputs)\<close> (a \<open>ZeroDivisionError\<close> on an empty mini-batch). The result is
  \<open>(contrastive_loss, pos_sim, neg_sim)\<close>.
\<close>

definition training_step_contrastive ::
  "'i Classifier \<Rightarrow> 'i batch \<Rightarrow> heap \<Rightarrow> rgen \<Rightarrow> error + (pyfloat \<times> pyfloat \<times> pyfloat)" where
  "training_step_contrastive self batch h rg =
     (case anchor_loop self batch [0..<length (a_inputs batch)] (h, Fin 0, Fin 0, Fin 0, rg) of
        Inl e \<Rightarrow> Inl e
      | Inr (h', contrastive_loss_sum, pos_sim, neg_sim, rg') \<Rightarrow>
          if length (a_inputs batch) = 0 then Inl ZeroDivisionError
          else Inr (fdiv contrastive_loss_sum (length (a_inputs batch)),
                    fdiv pos_sim (length (a_inputs batch)),
                    fdiv neg_sim (length (a_inputs batch))))"

section \<open>Group ids and sampler weights (\<open>train\<close> in \<open>domino/vision_ks.py\<close>)\<close>

text \<open>
  A column entry of the datapanel is an integer or missing (\<open>nan\<close>, here \<open>None\<close>).
  Lines 508-515 work on whole numpy columns, in int64 when no column holds a \<open>nan\<close>
  and in float64 otherwise. Both hold every integer of magnitude up to \<open>2^53\<close>
  exactly, and on these their sums and products agree with the integers as long as the
  result stays in that range. During the computation an entry is therefore \<open>NaN\<close>,
  an integer in this range (\<open>Exact\<close>), or \<open>Inexact\<close>: a value that has left the range
  (float64 rounds it, int64 may wrap), which the model follows no further. A \<open>nan\<close>
  operand makes a sum or a product \<open>nan\<close>.
\<close>

type_synonym cell = "int option"

datatype num = NaN | Exact int | Inexact

definition exact_bound :: int where
  "exact_bound = 2 ^ 53"

definition load_cell :: "cell \<Rightarrow> num" where
  "load_cell c =
     (case c of
        None \<Rightarrow> NaN
      | Some v \<Rightarrow> if \<bar>v\<bar> \<le> exact_bound then Exact v else Inexact)"

definition nan_add :: "num \<Rightarrow> num \<Rightarrow> num" where
  "nan_add x y =
     (case x of
        NaN \<Rightarrow> NaN
      | Inexact \<Rightarrow> (case y of NaN \<Rightarrow> NaN | _ \<Rightarrow> Inexact)
      | Exact a \<Rightarrow>
          (case y of
             NaN \<Rightarrow> NaN
           | Inexact \<Rightarrow> Inexact
           | Exact b \<Rightarrow> if \<bar>a + b\<bar> \<le> exact_bound then Exact (a + b) else Inexact))"

definition nan_scale :: "int \<Rightarrow> num \<Rightarrow> num" where
  "nan_scale k x =
     (if exact_bound < \<bar>k\<bar> then Inexact
      else (case x of
              NaN \<Rightarrow> NaN
            | Inexact \<Rightarrow> Inexact
            | Exact a \<Rightarrow> if \<bar>k * a\<bar> \<le> exact_bound then Exact (k * a) else Inexact))"

text \<open>
  The group ids as stored: \<open>nan\<close> entries are overwritten with -1 (line 515) before
  \<open>astype(int)\<close>, which leaves an integer as it is.
\<close>

definition compute_group_ids :: "cell list \<Rightarrow> cell list list \<Rightarrow> num list" where
  "compute_group_ids target_col subgroup_cols =
     (let group_ids =
            (if 0 < length subgroup_cols then
               fold (\<lambda>i group_ids.
                       map2 nan_add group_ids
                         (map (\<lambda>c. nan_scale (2 ^ (i + 1)) (load_cell c)) (subgroup_cols ! i)))
                    [0..<length subgroup_cols] (map load_cell target_col)
             else map load_cell target_col)
      in map (\<lambda>c. case c of NaN \<Rightarrow> Exact (- 1) | Exact v \<Rightarrow> Exact v | Inexact \<Rightarrow> Inexact)
           group_ids)"

text \<open>
  Lines 555-561 name group \<open>i\<close> after the bits they read off it: \<open>i % 2\<close> for the
  target and \<open>int(i / 2 ** (ndx + 1)) % 2\<close> for subgroup column \<open>ndx\<close>, each selecting
  \<open>"without"\<close> or \<open>"with"\<close>.
\<close>

definition binary_strs :: "bool \<Rightarrow> string" where
  "binary_strs b = (if b then ''with'' else ''without'')"

definition group_bits :: "nat \<Rightarrow> nat \<Rightarrow> bool \<times> bool list" where
  "group_bits k i = (i mod 2 \<noteq> 0, map (\<lambda>ndx. (i div 2 ^ (ndx + 1)) mod 2 \<noteq> 0) [0..<k])"

definition subgroup_name :: "string \<Rightarrow> string list \<Rightarrow> nat \<Rightarrow> string" where
  "subgroup_name target_column subgroup_columns i =
     (case group_bits (length subgroup_columns) i of (tb, bs) \<Rightarrow>
        binary_strs tb @ ''_'' @ target_column
        @ concat (map2 (\<lambda>b name. ''_'' @ binary_strs b @ ''_'' @ name) bs subgroup_columns))"

definition subgroup_columns_names :: "string \<Rightarrow> string list \<Rightarrow> string list" where
  "subgroup_columns_names target_column subgroup_columns =
     map (subgroup_name target_column subgroup_columns) [0..<2 ^ (length subgroup_columns + 1)]"

text \<open>
  Lines 662-671: the weights of the robust sampler. \<open>n_groups\<close> is
  \<open>len(subgroup_columns_)\<close>; the exponent is \<open>reweight_class_alpha\<close>.
\<close>

definition masked_assign :: "real list \<Rightarrow> bool list \<Rightarrow> real \<Rightarrow> real list" where
  "masked_assign weights group_mask v = map2 (\<lambda>w m. if m then v else w) weights group_mask"

definition robust_sampler_weights :: "int list \<Rightarrow> nat \<Rightarrow> real \<Rightarrow> real list" where
  "robust_sampler_weights train_group_id n_groups alpha =
     fold (\<lambda>group_i weights.
             let group_mask = map (\<lambda>g. g = int group_i) train_group_id
             in masked_assign weights group_mask
                  ((1 + (real (length train_group_id) - real (mask_sum group_mask))
                          / real (length train_group_id)) powr alpha))
          [0..<n_groups] (replicate (length train_group_id) 1)"

section \<open>The loss as the specification words it\<close>

text \<open>
  The multi-positive, multi-negative loss of the specification, over the similarities
  of the anchor to the positives and to the negatives: the negative mean over the
  positives of \<open>log(exp(pos_sim/T)) - log(exp(pos_sim/T) + sum of exp(neg_sim/T))\<close>.
  It is compared with \<open>forward\<close> below.
\<close>

definition spec_loss :: "real \<Rightarrow> real list \<Rightarrow> real list \<Rightarrow> real" where
  "spec_loss T pos_sim neg_sim =
     - ((\<Sum>p\<leftarrow>pos_sim. ln (exp (p / T)) - ln (exp (p / T) + (\<Sum>n\<leftarrow>neg_sim. exp (n / T))))
        / real (length pos_sim))"

text \<open>
  The cosine similarity of two vectors as the specification means it: their inner
  product over the product of their Euclidean lengths.
\<close>

definition cosine :: "real list \<Rightarrow> real list \<Rightarrow> real" where
  "cosine x y =
     (\<Sum>i<length x. x ! i * y ! i)
       / (sqrt (\<Sum>i<length x. (x ! i)\<^sup>2) * sqrt (\<Sum>i<length y. (y ! i)\<^sup>2))"

section \<open>Properties of the CnC pair construction\<close>

lemma choice_ok:
  "a \<noteq> [] \<or> n = 0 \<Longrightarrow>
   choice a n g = Inr (map (\<lambda>k. a ! (g k mod length a)) [0..<n], \<lambda>k. g (k + n))"
  by (auto simp: choice_def randint_def comp_def)

lemma choice_fail: "a = [] \<Longrightarrow> 0 < n \<Longrightarrow> choice a n g = Inl ValueError"
  by (simp add: choice_def randint_def comp_def)

lemma choice_props:
  assumes "choice a n g = Inr (ys, g')"
  shows "length ys = n \<and> set ys \<subseteq> set a"
proof -
  from assms have ok: "a \<noteq> [] \<or> n = 0"
    by (auto simp: choice_def randint_def comp_def split: if_splits)
  from assms have ys: "ys = map (\<lambda>k. a ! (g k mod length a)) [0..<n]"
    by (auto simp: choice_def randint_def comp_def split: if_splits)
  show ?thesis
  proof (cases "n = 0")
    case True
    with ys show ?thesis by simp
  next
    case False
    with ok have "0 < length a" by simp
    then have "\<And>k. a ! (g k mod length a) \<in> set a" by simp
    with ys show ?thesis by auto
  qed
qed

lemma choice_attain:
  assumes sub: "set ys \<subseteq> set a"
  shows "\<exists>f. \<forall>h. choice a (length ys)
                    (\<lambda>k. if k < length ys then f k else h (k - length ys)) = Inr (ys, h)"
proof -
  define f where "f k = (SOME i. i < length a \<and> a ! i = ys ! k)" for k
  have fk: "f k < length a \<and> a ! f k = ys ! k" if "k < length ys" for k
  proof -
    from that sub have "ys ! k \<in> set a" by auto
    then obtain i where "i < length a \<and> a ! i = ys ! k"
      by (auto simp: in_set_conv_nth)
    then show ?thesis unfolding f_def by (rule someI)
  qed
  have ne: "a \<noteq> [] \<or> length ys = 0"
    using sub by (cases ys) auto
  have m: "map (\<lambda>k. a ! ((if k < length ys then f k else h (k - length ys)) mod length a))
             [0..<length ys] = ys" for h :: gen
    by (rule nth_equalityI) (simp_all add: fk)
  have "\<forall>h. choice a (length ys)
                    (\<lambda>k. if k < length ys then f k else h (k - length ys)) = Inr (ys, h)"
    using ne m by (simp add: choice_ok)
  then show ?thesis by blast
qed

lemma loader_majority:
  "v = 0 \<or> v = 3 \<Longrightarrow>
   contrastive_loader [''group_id'' \<mapsto> v] (p0, p3) (n0, n3) num_p num_n g =
     (case choice (if v = 0 then p0 else p3) num_p g of
        Inl e \<Rightarrow> Inl e
      | Inr (pe, g1) \<Rightarrow>
          (case choice (if v = 0 then n0 else n3) num_n g1 of
             Inl e \<Rightarrow> Inl e
           | Inr (ne, g2) \<Rightarrow> Inr ((pe, ne), g2)))"
  by (auto simp: contrastive_loader_def)

lemma loader_other:
  "v \<noteq> 0 \<Longrightarrow> v \<noteq> 3 \<Longrightarrow>
   contrastive_loader [''group_id'' \<mapsto> v] pe ne num_p num_n g = Inl UnboundLocalError"
  by (simp add: contrastive_loader_def split: prod.splits)

lemma draw_pair_ok:
  assumes "P \<noteq> [] \<or> num_p = 0" "N \<noteq> [] \<or> num_n = 0"
  shows "\<exists>ps ns g'.
           (case choice P num_p g of
              Inl e \<Rightarrow> Inl e
            | Inr (pe, g1) \<Rightarrow>
                (case choice N num_n g1 of
                   Inl e \<Rightarrow> Inl e
                 | Inr (ne, g2) \<Rightarrow> Inr ((pe, ne), g2))) = Inr ((ps, ns), g')
           \<and> length ps = num_p \<and> length ns = num_n \<and> set ps \<subseteq> set P \<and> set ns \<subseteq> set N"
proof -
  obtain ps g1 where c1: "choice P num_p g = Inr (ps, g1)"
    using assms(1) by (simp add: choice_ok)
  obtain ns g2 where c2: "choice N num_n g1 = Inr (ns, g2)"
    using assms(2) by (simp add: choice_ok)
  from choice_props [OF c1] choice_props [OF c2] c1 c2 show ?thesis by simp
qed

lemma draw_pair_fail:
  assumes "(P = [] \<and> 0 < num_p) \<or> (N = [] \<and> 0 < num_n)"
  shows "(case choice P num_p g of
              Inl e \<Rightarrow> Inl e
            | Inr (pe, g1) \<Rightarrow>
                (case choice N num_n g1 of
                   Inl e \<Rightarrow> Inl e
                 | Inr (ne, g2) \<Rightarrow> Inr ((pe, ne), g2))) = Inl ValueError"
proof (cases "P = [] \<and> 0 < num_p")
  case True
  then show ?thesis by (simp add: choice_fail)
next
  case False
  with assms have n: "N = []" "0 < num_n" by auto
  from False have "P \<noteq> [] \<or> num_p = 0" by auto
  then show ?thesis using n by (simp add: choice_ok choice_fail)
qed

lemma draw_pair_attain:
  assumes "set ps \<subseteq> set P" "set ns \<subseteq> set N"
    and lp: "length ps = num_p" and ln: "length ns = num_n"
  shows "\<exists>g g'. (case choice P num_p g of
              Inl e \<Rightarrow> Inl e
            | Inr (pe, g1) \<Rightarrow>
                (case choice N num_n g1 of
                   Inl e \<Rightarrow> Inl e
                 | Inr (ne, g2) \<Rightarrow> Inr ((pe, ne), g2))) = Inr ((ps, ns), g')"
proof -
  from choice_attain [OF assms(1)] obtain f where
    f: "\<And>h. choice P (length ps) (\<lambda>k. if k < length ps then f k else h (k - length ps)) = Inr (ps, h)"
    by blast
  from choice_attain [OF assms(2)] obtain f' where
    f': "\<And>h. choice N (length ns) (\<lambda>k. if k < length ns then f' k else h (k - length ns)) = Inr (ns, h)"
    by blast
  let ?h = "\<lambda>k. if k < length ns then f' k else (0::nat)"
  have "choice N (length ns) ?h = Inr (ns, \<lambda>k. 0)"
    using f' [of "\<lambda>k. 0"] by simp
  with f [of ?h] have
    "(case choice P (length ps) (\<lambda>k. if k < length ps then f k else ?h (k - length ps)) of
              Inl e \<Rightarrow> Inl e
            | Inr (pe, g1) \<Rightarrow>
                (case choice N (length ns) g1 of
                   Inl e \<Rightarrow> Inl e
                 | Inr (ne, g2) \<Rightarrow> Inr ((pe, ne), g2))) = Inr ((ps, ns), \<lambda>k. 0)"
    by simp
  then show ?thesis unfolding lp ln by blast
qed

lemma card_residue:
  assumes i: "i < m" and d: "m dvd R"
  shows "card {r. r < R \<and> r mod m = i} = R div (m::nat)"
proof -
  from d obtain q where R: "R = m * q" by (auto simp: dvd_def)
  from i have m: "0 < m" by simp
  have "{r. r < R \<and> r mod m = i} = (\<lambda>j. i + j * m) ` {..<q}"
  proof (intro set_eqI iffI)
    fix r assume "r \<in> {r. r < R \<and> r mod m = i}"
    then have r: "r < m * q" "r mod m = i" using R by simp_all
    have "r div m < q" using r(1) m by (simp add: less_mult_imp_div_less mult.commute)
    moreover have "r = i + (r div m) * m" using r(2) by (metis mod_div_mult_eq)
    ultimately show "r \<in> (\<lambda>j. i + j * m) ` {..<q}" by blast
  next
    fix r assume "r \<in> (\<lambda>j. i + j * m) ` {..<q}"
    then obtain j where j: "j < q" "r = i + j * m" by blast
    have "i + j * m < m + j * m" using i by simp
    also have "\<dots> = Suc j * m" by simp
    also have "\<dots> \<le> q * m" using j(1) by (intro mult_le_mono1) simp
    finally have "r < R" using j(2) R by (simp add: mult.commute)
    moreover have "r mod m = i" using j(2) i by simp
    ultimately show "r \<in> {r. r < R \<and> r mod m = i}" by simp
  qed
  moreover have "inj_on (\<lambda>j. i + j * m) {..<q}"
    using m by (auto simp: inj_on_def)
  ultimately have "card {r. r < R \<and> r mod m = i} = q"
    by (simp add: card_image)
  then show ?thesis using R m by simp
qed

lemma card_raw_prefix:
  assumes "\<forall>(m, i)\<in>set mis. i < m \<and> m dvd R"
  shows "finite {rs. length rs = length mis \<and>
                  (\<forall>k<length mis. rs ! k < R \<and> rs ! k mod fst (mis ! k) = snd (mis ! k))} \<and>
         card {rs. length rs = length mis \<and>
                  (\<forall>k<length mis. rs ! k < R \<and> rs ! k mod fst (mis ! k) = snd (mis ! k))}
           = prod_list (map (\<lambda>(m, i). R div m) mis)"
  using assms
proof (induction mis)
  case Nil
  have "{rs :: nat list. length rs = 0} = {[]}" by auto
  then show ?case by simp
next
  case (Cons mi mis)
  obtain m i where mi: "mi = (m, i)" by (cases mi)
  let ?A = "{r. r < R \<and> r mod m = i}"
  let ?B = "{rs. length rs = length mis \<and>
                  (\<forall>k<length mis. rs ! k < R \<and> rs ! k mod fst (mis ! k) = snd (mis ! k))}"
  let ?C = "{rs. length rs = length (mi # mis) \<and>
                  (\<forall>k<length (mi # mis). rs ! k < R
                       \<and> rs ! k mod fst ((mi # mis) ! k) = snd ((mi # mis) ! k))}"
  from Cons.prems mi have im: "i < m" "m dvd R" by auto
  from Cons.prems have "\<forall>(m, i)\<in>set mis. i < m \<and> m dvd R" by simp
  with Cons.IH have fB: "finite ?B" and cB: "card ?B = prod_list (map (\<lambda>(m, i). R div m) mis)"
    by simp_all
  have fA: "finite ?A" by simp
  have cA: "card ?A = R div m" using im by (rule card_residue)
  have C: "?C = (\<lambda>(r, rs). r # rs) ` (?A \<times> ?B)"
  proof (intro set_eqI iffI)
    fix rs assume h: "rs \<in> ?C"
    then obtain r rs' where rs: "rs = r # rs'" by (cases rs) auto
    from h rs have l: "length rs' = length mis" by simp
    from h rs mi have "r < R \<and> r mod m = i" by fastforce
    moreover have "rs' ! k < R \<and> rs' ! k mod fst (mis ! k) = snd (mis ! k)"
      if "k < length mis" for k
    proof -
      from that have "Suc k < length (mi # mis)" by simp
      with h have "rs ! Suc k < R \<and> rs ! Suc k mod fst ((mi # mis) ! Suc k) = snd ((mi # mis) ! Suc k)"
        by blast
      then show ?thesis using rs by simp
    qed
    ultimately have "(r, rs') \<in> ?A \<times> ?B" using l by simp
    then show "rs \<in> (\<lambda>(r, rs). r # rs) ` (?A \<times> ?B)" using rs by force
  next
    fix rs assume "rs \<in> (\<lambda>(r, rs). r # rs) ` (?A \<times> ?B)"
    then obtain r rs' where rs: "rs = r # rs'" and a: "r \<in> ?A" and b: "rs' \<in> ?B" by auto
    have "rs ! k < R \<and> rs ! k mod fst ((mi # mis) ! k) = snd ((mi # mis) ! k)"
      if "k < length (mi # mis)" for k
    proof (cases k)
      case 0
      with a rs mi show ?thesis by simp
    next
      case (Suc k')
      with that have "k' < length mis" by simp
      with b have "rs' ! k' < R \<and> rs' ! k' mod fst (mis ! k') = snd (mis ! k')" by blast
      with Suc rs show ?thesis by simp
    qed
    moreover from b rs have "length rs = length (mi # mis)" by simp
    ultimately show "rs \<in> ?C" by blast
  qed
  have inj: "inj_on (\<lambda>(r, rs). r # rs) (?A \<times> ?B)"
    by (auto simp: inj_on_def)
  have "card ?C = card (?A \<times> ?B)" unfolding C using inj by (rule card_image)
  also have "\<dots> = card ?A * card ?B" by (rule card_cartesian_product)
  finally have "card ?C = prod_list (map (\<lambda>(m, i). R div m) (mi # mis))"
    using cA cB mi by simp
  moreover have "finite ?C" unfolding C using fA fB by blast
  ultimately show ?case by blast
qed

lemma prod_list_const: "prod_list (map (\<lambda>x. c) xs) = (c::nat) ^ length xs"
  by (induction xs) simp_all

lemma draw_count:
  assumes ip: "length ip = np" "\<forall>x\<in>set ip. x < mp" and dp: "mp dvd R"
    and jn: "length jn = nn" "\<forall>x\<in>set jn. x < mn" and dn: "mn dvd R"
  shows "card {rs. length rs = np + nn \<and> (\<forall>r\<in>set rs. r < R) \<and>
                   fst (randint mp np ((!) rs)) = ip \<and>
                   fst (randint mn nn (snd (randint mp np ((!) rs)))) = jn}
           = (R div mp) ^ np * (R div mn) ^ nn"
proof -
  let ?mis = "map (\<lambda>i. (mp, i)) ip @ map (\<lambda>i. (mn, i)) jn"
  let ?S = "{rs. length rs = length ?mis \<and>
                  (\<forall>k<length ?mis. rs ! k < R \<and> rs ! k mod fst (?mis ! k) = snd (?mis ! k))}"
  have lm: "length ?mis = np + nn" using ip(1) jn(1) by simp
  have mk1: "?mis ! k = (mp, ip ! k)" if "k < np" for k
    using that ip(1) by (simp add: nth_append)
  have mk2: "?mis ! (np + k) = (mn, jn ! k)" if "k < nn" for k
    using that ip(1) jn(1) by (simp add: nth_append)
  have eq: "{rs. length rs = np + nn \<and> (\<forall>r\<in>set rs. r < R) \<and>
                   fst (randint mp np ((!) rs)) = ip \<and>
                   fst (randint mn nn (snd (randint mp np ((!) rs)))) = jn} = ?S"
  proof (intro set_eqI iffI)
    fix rs
    assume "rs \<in> {rs. length rs = np + nn \<and> (\<forall>r\<in>set rs. r < R) \<and>
                   fst (randint mp np ((!) rs)) = ip \<and>
                   fst (randint mn nn (snd (randint mp np ((!) rs)))) = jn}"
    then have l: "length rs = np + nn" and b: "\<forall>r\<in>set rs. r < R"
      and p: "map (\<lambda>k. rs ! k mod mp) [0..<np] = ip"
      and n: "map (\<lambda>k. rs ! (k + np) mod mn) [0..<nn] = jn"
      by (simp_all add: randint_def)
    have "rs ! k < R \<and> rs ! k mod fst (?mis ! k) = snd (?mis ! k)" if k: "k < length ?mis" for k
    proof -
      from k lm l have kl: "k < length rs" by simp
      with b have r: "rs ! k < R" by simp
      show ?thesis
      proof (cases "k < np")
        case True
        from p have "map (\<lambda>k. rs ! k mod mp) [0..<np] ! k = ip ! k" by simp
        with True have "rs ! k mod mp = ip ! k" by simp
        with r mk1 [OF True] show ?thesis by simp
      next
        case False
        with k lm obtain k' where k': "k = np + k'" "k' < nn"
          by (metis add_diff_inverse_nat nat_add_left_cancel_less)
        from n have "map (\<lambda>k. rs ! (k + np) mod mn) [0..<nn] ! k' = jn ! k'" by simp
        with k'(2) have "rs ! (k' + np) mod mn = jn ! k'" by simp
        with r mk2 [OF k'(2)] k'(1) show ?thesis by (simp add: add.commute)
      qed
    qed
    with l lm show "rs \<in> ?S" by simp
  next
    fix rs assume "rs \<in> ?S"
    then have l: "length rs = np + nn"
      and h: "\<And>k. k < np + nn \<Longrightarrow> rs ! k < R \<and> rs ! k mod fst (?mis ! k) = snd (?mis ! k)"
      using lm by simp_all
    have b: "\<forall>r\<in>set rs. r < R"
      using h l by (auto simp: in_set_conv_nth)
    have p: "map (\<lambda>k. rs ! k mod mp) [0..<np] = ip"
    proof (rule nth_equalityI)
      show "length (map (\<lambda>k. rs ! k mod mp) [0..<np]) = length ip" using ip(1) by simp
    next
      fix k assume "k < length (map (\<lambda>k. rs ! k mod mp) [0..<np])"
      then have k: "k < np" by simp
      with h [of k] mk1 [OF k] show "map (\<lambda>k. rs ! k mod mp) [0..<np] ! k = ip ! k" by simp
    qed
    have n: "map (\<lambda>k. rs ! (k + np) mod mn) [0..<nn] = jn"
    proof (rule nth_equalityI)
      show "length (map (\<lambda>k. rs ! (k + np) mod mn) [0..<nn]) = length jn" using jn(1) by simp
    next
      fix k assume "k < length (map (\<lambda>k. rs ! (k + np) mod mn) [0..<nn])"
      then have k: "k < nn" by simp
      with h [of "np + k"] mk2 [OF k]
      show "map (\<lambda>k. rs ! (k + np) mod mn) [0..<nn] ! k = jn ! k" by (simp add: add.commute)
    qed
    from l b p n show "rs \<in> {rs. length rs = np + nn \<and> (\<forall>r\<in>set rs. r < R) \<and>
                   fst (randint mp np ((!) rs)) = ip \<and>
                   fst (randint mn nn (snd (randint mp np ((!) rs)))) = jn}"
      by (simp add: randint_def)
  qed
  have "\<forall>(m, i)\<in>set ?mis. i < m \<and> m dvd R"
    using ip(2) jn(2) dp dn by auto
  from card_raw_prefix [OF this] have "card ?S = prod_list (map (\<lambda>(m, i). R div m) ?mis)"
    by blast
  also have "\<dots> = (R div mp) ^ np * (R div mn) ^ nn"
    using ip(1) jn(1) by (simp add: comp_def prod_list_const)
  finally show ?thesis unfolding eq .
qed

lemma draw_pair_randint:
  assumes "P \<noteq> [] \<or> num_p = 0" "N \<noteq> [] \<or> num_n = 0"
  shows "(case choice P num_p g of
              Inl e \<Rightarrow> Inl e
            | Inr (pe, g1) \<Rightarrow>
                (case choice N num_n g1 of
                   Inl e \<Rightarrow> Inl e
                 | Inr (ne, g2) \<Rightarrow> Inr ((pe, ne), g2)))
         = Inr ((map ((!) P) (fst (randint (length P) num_p g)),
                 map ((!) N) (fst (randint (length N) num_n (snd (randint (length P) num_p g))))),
                snd (randint (length N) num_n (snd (randint (length P) num_p g))))"
  using assms by (auto simp: choice_def split: prod.splits)

lemma cdp_rows:
  "rows (load_contrastive_dp dp num_a num_p num_n) =
     filter (\<lambda>r. group_id r = 0 \<or> group_id r = 3) dp"
  by (simp add: load_contrastive_dp_def Let_def)

lemma cdp_col_length:
  "length (contrastive_pair (load_contrastive_dp dp num_a num_p num_n)) =
   length (rows (load_contrastive_dp dp num_a num_p num_n))"
  by (simp add: load_contrastive_dp_def Let_def)

lemma cdp_col_nth:
  assumes "i < length (rows (load_contrastive_dp dp num_a num_p num_n))"
  shows "contrastive_pair (load_contrastive_dp dp num_a num_p num_n) ! i =
           contrastive_loader
             [''group_id'' \<mapsto> group_id (rows (load_contrastive_dp dp num_a num_p num_n) ! i)]
             (filter (\<lambda>r. group_id r = 2) dp, filter (\<lambda>r. group_id r = 1) dp)
             (filter (\<lambda>r. group_id r = 1) dp, filter (\<lambda>r. group_id r = 2) dp) num_p num_n"
  using assms by (simp add: load_contrastive_dp_def Let_def)

lemma cdp_row_majority:
  assumes "i < length (rows (load_contrastive_dp dp num_a num_p num_n))"
  shows "(group_id (rows (load_contrastive_dp dp num_a num_p num_n) ! i) = 0
          \<or> group_id (rows (load_contrastive_dp dp num_a num_p num_n) ! i) = 3)
         \<and> rows (load_contrastive_dp dp num_a num_p num_n) ! i \<in> set dp"
proof -
  have "rows (load_contrastive_dp dp num_a num_p num_n) ! i
          \<in> set (filter (\<lambda>r. group_id r = 0 \<or> group_id r = 3) dp)"
    using assms unfolding cdp_rows by (rule nth_mem)
  then show ?thesis by simp
qed

lemma filter_empty_iff: "filter (\<lambda>r. group_id r = c) dp = [] \<longleftrightarrow> \<not> (\<exists>r\<in>set dp. group_id r = c)"
  by (auto simp: filter_empty_conv)

text \<open>
  Claim C2, as amended. Every row of the collection returned by \<open>load_contrastive_dp\<close>
  is a row of the datapanel with \<open>group_id\<close> 0 or 3. When, for each side, the stratum
  designated for the anchor holds a row or no draw is requested, every access to the
  anchor's pair returns \<open>num_p\<close> positives and \<open>num_n\<close> negatives, rows of the
  datapanel, with \<open>group_id\<close> 2 and 1 for an anchor of group 0 and with \<open>group_id\<close> 1
  and 2 for an anchor of group 3. Otherwise every access raises \<open>ValueError\<close>.

  The draws are uniform and with replacement. Every pair of lists of these lengths
  over the designated strata is the result for some state of the generator; the pair
  returned is the rows at the indices that \<open>randint\<close> draws; and over the raw draws of
  any range that both stratum sizes divide, every combination of \<open>num_p\<close> indices into
  the positive stratum and \<open>num_n\<close> indices into the negative stratum, repeats
  included, is drawn by the same number of raw prefixes, so that all combinations are
  equally likely.
\<close>

theorem load_contrastive_dp_pairs:
  fixes dp :: "'x row list"
  assumes i: "i < length (rows (load_contrastive_dp dp num_a num_p num_n))"
  shows
   "let cdp = load_contrastive_dp dp num_a num_p num_n;
        a = rows cdp ! i;
        pg = (if group_id a = 0 then 2 else 1);
        ng = (if group_id a = 0 then 1 else 2);
        drawable = ((num_p = 0 \<or> (\<exists>r\<in>set dp. group_id r = pg))
                  \<and> (num_n = 0 \<or> (\<exists>r\<in>set dp. group_id r = ng)));
        pos = filter (\<lambda>r. group_id r = pg) dp;
        neg = filter (\<lambda>r. group_id r = ng) dp
    in (group_id a = 0 \<or> group_id a = 3) \<and> a \<in> set dp \<and>
       length (contrastive_pair cdp) = length (rows cdp) \<and>
       (drawable \<longrightarrow>
          (\<forall>g. \<exists>ps ns g'. (contrastive_pair cdp ! i) g = Inr ((ps, ns), g') \<and>
             length ps = num_p \<and> length ns = num_n \<and>
             set ps \<subseteq> set dp \<and> set ns \<subseteq> set dp \<and>
             (group_id a = 0 \<longrightarrow>
                (\<forall>p\<in>set ps. group_id p = 2) \<and> (\<forall>n\<in>set ns. group_id n = 1)) \<and>
             (group_id a = 3 \<longrightarrow>
                (\<forall>p\<in>set ps. group_id p = 1) \<and> (\<forall>n\<in>set ns. group_id n = 2)))) \<and>
       (\<not> drawable \<longrightarrow> (\<forall>g. (contrastive_pair cdp ! i) g = Inl ValueError)) \<and>
       (\<forall>ps ns. length ps = num_p \<and> length ns = num_n \<and>
            (\<forall>p\<in>set ps. p \<in> set dp \<and> group_id p = pg) \<and>
            (\<forall>n\<in>set ns. n \<in> set dp \<and> group_id n = ng) \<longrightarrow>
            (\<exists>g g'. (contrastive_pair cdp ! i) g = Inr ((ps, ns), g'))) \<and>
       (drawable \<longrightarrow>
          (\<forall>g. (contrastive_pair cdp ! i) g =
             Inr ((map ((!) pos) (fst (randint (length pos) num_p g)),
                   map ((!) neg)
                     (fst (randint (length neg) num_n (snd (randint (length pos) num_p g))))),
                  snd (randint (length neg) num_n (snd (randint (length pos) num_p g)))))) \<and>
       (\<forall>R ip jn.
            length pos dvd R \<and> length neg dvd R \<and>
            length ip = num_p \<and> (\<forall>x\<in>set ip. x < length pos) \<and>
            length jn = num_n \<and> (\<forall>x\<in>set jn. x < length neg) \<longrightarrow>
            card {rs. length rs = num_p + num_n \<and> (\<forall>r\<in>set rs. r < R) \<and>
                      fst (randint (length pos) num_p ((!) rs)) = ip \<and>
                      fst (randint (length neg) num_n (snd (randint (length pos) num_p ((!) rs))))
                        = jn}
              = (R div length pos) ^ num_p * (R div length neg) ^ num_n)"
proof -
  let ?cdp = "load_contrastive_dp dp num_a num_p num_n"
  let ?a = "rows ?cdp ! i"
  let ?pg = "if group_id ?a = 0 then 2 else (1::int)"
  let ?ng = "if group_id ?a = 0 then 1 else (2::int)"
  let ?P = "filter (\<lambda>r. group_id r = ?pg) dp"
  let ?N = "filter (\<lambda>r. group_id r = ?ng) dp"
  let ?draw = "\<lambda>g. (case choice ?P num_p g of
                       Inl e \<Rightarrow> Inl e
                     | Inr (pe, g1) \<Rightarrow>
                         (case choice ?N num_n g1 of
                            Inl e \<Rightarrow> Inl e
                          | Inr (ne, g2) \<Rightarrow> Inr ((pe, ne), g2)))"
  have maj: "group_id ?a = 0 \<or> group_id ?a = 3" and mem: "?a \<in> set dp"
    using cdp_row_majority [OF i] by simp_all
  have col: "(contrastive_pair ?cdp ! i) g = ?draw g" for g
    unfolding cdp_col_nth [OF i] using maj
    by (auto simp: loader_majority)
  have A: "\<exists>ps ns g'. (contrastive_pair ?cdp ! i) g = Inr ((ps, ns), g') \<and>
             length ps = num_p \<and> length ns = num_n \<and>
             set ps \<subseteq> set dp \<and> set ns \<subseteq> set dp \<and>
             (group_id ?a = 0 \<longrightarrow>
                (\<forall>p\<in>set ps. group_id p = 2) \<and> (\<forall>n\<in>set ns. group_id n = 1)) \<and>
             (group_id ?a = 3 \<longrightarrow>
                (\<forall>p\<in>set ps. group_id p = 1) \<and> (\<forall>n\<in>set ns. group_id n = 2))"
    if d: "(num_p = 0 \<or> (\<exists>r\<in>set dp. group_id r = ?pg))
           \<and> (num_n = 0 \<or> (\<exists>r\<in>set dp. group_id r = ?ng))" for g
  proof -
    from d have "?P \<noteq> [] \<or> num_p = 0" "?N \<noteq> [] \<or> num_n = 0"
      unfolding filter_empty_iff by blast+
    from draw_pair_ok [OF this, of g] obtain ps ns g' where
      r: "?draw g = Inr ((ps, ns), g')" "length ps = num_p" "length ns = num_n"
         "set ps \<subseteq> set ?P" "set ns \<subseteq> set ?N"
      by blast
    from r(4) have p: "\<forall>p\<in>set ps. p \<in> set dp \<and> group_id p = ?pg" by auto
    from r(5) have n: "\<forall>n\<in>set ns. n \<in> set dp \<and> group_id n = ?ng" by auto
    from p n have "set ps \<subseteq> set dp \<and> set ns \<subseteq> set dp \<and>
             (group_id ?a = 0 \<longrightarrow>
                (\<forall>p\<in>set ps. group_id p = 2) \<and> (\<forall>n\<in>set ns. group_id n = 1)) \<and>
             (group_id ?a = 3 \<longrightarrow>
                (\<forall>p\<in>set ps. group_id p = 1) \<and> (\<forall>n\<in>set ns. group_id n = 2))"
      by auto
    with r(1-3) show ?thesis unfolding col by blast
  qed
  have B: "(contrastive_pair ?cdp ! i) g = Inl ValueError"
    if nd: "\<not> ((num_p = 0 \<or> (\<exists>r\<in>set dp. group_id r = ?pg))
           \<and> (num_n = 0 \<or> (\<exists>r\<in>set dp. group_id r = ?ng)))" for g
  proof -
    from nd have "(?P = [] \<and> 0 < num_p) \<or> (?N = [] \<and> 0 < num_n)"
      unfolding filter_empty_iff by auto
    from draw_pair_fail [OF this] show ?thesis unfolding col .
  qed
  have C: "\<exists>g g'. (contrastive_pair ?cdp ! i) g = Inr ((ps, ns), g')"
    if h: "length ps = num_p \<and> length ns = num_n \<and>
            (\<forall>p\<in>set ps. p \<in> set dp \<and> group_id p = ?pg) \<and>
            (\<forall>n\<in>set ns. n \<in> set dp \<and> group_id n = ?ng)" for ps ns
  proof -
    from h have "set ps \<subseteq> set ?P" "set ns \<subseteq> set ?N" by auto
    moreover from h have "length ps = num_p" "length ns = num_n" by simp_all
    ultimately have "\<exists>g g'. ?draw g = Inr ((ps, ns), g')"
      by (rule draw_pair_attain)
    then show ?thesis unfolding col by blast
  qed
  have U1: "(contrastive_pair ?cdp ! i) g =
             Inr ((map ((!) ?P) (fst (randint (length ?P) num_p g)),
                   map ((!) ?N)
                     (fst (randint (length ?N) num_n (snd (randint (length ?P) num_p g))))),
                  snd (randint (length ?N) num_n (snd (randint (length ?P) num_p g))))"
    if d: "(num_p = 0 \<or> (\<exists>r\<in>set dp. group_id r = ?pg))
           \<and> (num_n = 0 \<or> (\<exists>r\<in>set dp. group_id r = ?ng))" for g
  proof -
    from d have "?P \<noteq> [] \<or> num_p = 0" "?N \<noteq> [] \<or> num_n = 0"
      unfolding filter_empty_iff by blast+
    from draw_pair_randint [OF this] show ?thesis unfolding col .
  qed
  have U2: "card {rs. length rs = num_p + num_n \<and> (\<forall>r\<in>set rs. r < R) \<and>
                      fst (randint (length ?P) num_p ((!) rs)) = ip \<and>
                      fst (randint (length ?N) num_n (snd (randint (length ?P) num_p ((!) rs))))
                        = jn}
              = (R div length ?P) ^ num_p * (R div length ?N) ^ num_n"
    if h: "length ?P dvd R \<and> length ?N dvd R \<and>
            length ip = num_p \<and> (\<forall>x\<in>set ip. x < length ?P) \<and>
            length jn = num_n \<and> (\<forall>x\<in>set jn. x < length ?N)" for R ip jn
  proof -
    from h have "length ip = num_p" "\<forall>x\<in>set ip. x < length ?P" "length ?P dvd R"
      "length jn = num_n" "\<forall>x\<in>set jn. x < length ?N" "length ?N dvd R"
      by blast+
    then show ?thesis by (rule draw_count)
  qed
  have part1: "(group_id ?a = 0 \<or> group_id ?a = 3) \<and> ?a \<in> set dp \<and>
       length (contrastive_pair ?cdp) = length (rows ?cdp)"
    using maj mem cdp_col_length [of dp num_a num_p num_n] by blast
  show ?thesis
    unfolding Let_def
    apply (intro conjI)
    subgoal using part1 by blast
    subgoal using part1 by blast
    subgoal using part1 by blast
    subgoal using A by blast
    subgoal using B by blast
    subgoal using C by blast
    subgoal using U1 by blast
    subgoal using U2 by blast
    done
qed

text \<open>The theorem at a datapanel with one row in each of the groups 0, 1 and 2.\<close>

theorem load_contrastive_dp_pairs_witness:
  "0 < length (rows (load_contrastive_dp
         [\<lparr>input = (), target = 0, ident = 0, group_id = 0\<rparr>,
          \<lparr>input = (), target = 1, ident = 1, group_id = 1\<rparr>,
          \<lparr>input = (), target = 0, ident = 2, group_id = 2\<rparr>] 1 2 1)) \<and>
   (case (contrastive_pair (load_contrastive_dp
         [\<lparr>input = (), target = 0, ident = 0, group_id = 0\<rparr>,
          \<lparr>input = (), target = 1, ident = 1, group_id = 1\<rparr>,
          \<lparr>input = (), target = 0, ident = 2, group_id = 2\<rparr>] 1 2 1) ! 0) id of
      Inl e \<Rightarrow> False
    | Inr ((ps, ns), g') \<Rightarrow>
        ps = [\<lparr>input = (), target = 0, ident = 2, group_id = 2\<rparr>,
              \<lparr>input = (), target = 0, ident = 2, group_id = 2\<rparr>] \<and>
        ns = [\<lparr>input = (), target = 1, ident = 1, group_id = 1\<rparr>])"
proof -
  let ?dp = "[\<lparr>input = (), target = 0, ident = 0, group_id = 0\<rparr>,
          \<lparr>input = (), target = 1, ident = 1, group_id = 1\<rparr>,
          \<lparr>input = (), target = 0, ident = 2, group_id = 2\<rparr>]"
  have r: "rows (load_contrastive_dp ?dp 1 2 1)
             = [\<lparr>input = (), target = 0, ident = 0, group_id = 0\<rparr>]"
    by (simp add: load_contrastive_dp_def Let_def)
  have h: "0 < length (rows (load_contrastive_dp ?dp 1 2 1))"
    unfolding r by simp
  note t = load_contrastive_dp_pairs [OF h, unfolded Let_def]
  note u = t [THEN conjunct2, THEN conjunct2, THEN conjunct2, THEN conjunct2,
              THEN conjunct2, THEN conjunct2, THEN conjunct1]
  have i: "fst (randint (Suc 0) 2 id) = [0, 0]"
    "fst (randint (Suc 0) (Suc 0) (snd (randint (Suc 0) 2 id))) = [0]"
    by (simp_all add: randint_def numeral_2_eq_2)
  from u have "(contrastive_pair (load_contrastive_dp ?dp 1 2 1) ! 0) id
      = Inr (([\<lparr>input = (), target = 0, ident = 2, group_id = 2\<rparr>,
              \<lparr>input = (), target = 0, ident = 2, group_id = 2\<rparr>],
             [\<lparr>input = (), target = 1, ident = 1, group_id = 1\<rparr>]),
             snd (randint (Suc 0) (Suc 0) (snd (randint (Suc 0) 2 id))))"
    unfolding r by (simp add: i)
  with h show ?thesis by simp
qed

text \<open>
  Claim C2 as stated fails on a datapanel whose only row has \<open>group_id\<close> 0: the row is
  kept as an anchor, and the access to its pair raises \<open>ValueError\<close> instead of
  returning one positive and one negative.
\<close>

theorem load_contrastive_dp_empty_stratum:
  "rows (load_contrastive_dp [\<lparr>input = (), target = 0, ident = 0, group_id = 0\<rparr>] 1 1 1)
     = [\<lparr>input = (), target = 0, ident = 0, group_id = 0\<rparr>] \<and>
   (contrastive_pair
      (load_contrastive_dp [\<lparr>input = (), target = 0, ident = 0, group_id = 0\<rparr>] 1 1 1) ! 0) id
     = Inl ValueError"
  by (simp add: load_contrastive_dp_def contrastive_loader_def choice_def randint_def comp_def Let_def)

text \<open>
  Claim C9. \<open>contrastive_loader\<close> fails with \<open>UnboundLocalError\<close> for every anchor group
  other than 0 and 3, and never so for the groups 0 and 3; no entry of the column built
  by \<open>load_contrastive_dp\<close> fails in this way, since only rows of group 0 or 3 are kept.
\<close>

theorem contrastive_loader_unbound:
  fixes dp :: "'x row list"
  shows
  "(input_dict ''group_id'' = Some v \<and> v \<noteq> 0 \<and> v \<noteq> 3 \<longrightarrow>
      contrastive_loader input_dict positive_entries negative_entries num_p num_n g
        = Inl UnboundLocalError) \<and>
   (input_dict ''group_id'' = Some v \<and> (v = 0 \<or> v = 3) \<longrightarrow>
      contrastive_loader input_dict positive_entries negative_entries num_p num_n g
        \<noteq> Inl UnboundLocalError) \<and>
   (i < length (rows (load_contrastive_dp dp num_a num_p num_n)) \<longrightarrow>
      (contrastive_pair (load_contrastive_dp dp num_a num_p num_n) ! i) g'
        \<noteq> Inl UnboundLocalError)"
proof (intro conjI impI)
  assume "input_dict ''group_id'' = Some v \<and> v \<noteq> 0 \<and> v \<noteq> 3"
  then show "contrastive_loader input_dict positive_entries negative_entries num_p num_n g
        = Inl UnboundLocalError"
    by (simp add: contrastive_loader_def split: prod.splits)
next
  assume "input_dict ''group_id'' = Some v \<and> (v = 0 \<or> v = 3)"
  then show "contrastive_loader input_dict positive_entries negative_entries num_p num_n g
        \<noteq> Inl UnboundLocalError"
    by (auto simp: contrastive_loader_def choice_def randint_def comp_def split: prod.splits sum.splits)
next
  assume i: "i < length (rows (load_contrastive_dp dp num_a num_p num_n))"
  from cdp_row_majority [OF i] show
    "(contrastive_pair (load_contrastive_dp dp num_a num_p num_n) ! i) g' \<noteq> Inl UnboundLocalError"
    unfolding cdp_col_nth [OF i]
    by (auto simp: contrastive_loader_def choice_def randint_def comp_def split: prod.splits sum.splits)
qed

text \<open>The theorem at anchor groups 1 and 3 and at a one-row datapanel.\<close>

theorem contrastive_loader_unbound_witness:
  "([''group_id'' \<mapsto> (1::int)]) ''group_id'' = Some 1 \<and> (1::int) \<noteq> 0 \<and> (1::int) \<noteq> 3 \<and>
   contrastive_loader [''group_id'' \<mapsto> 1] ([], [] :: unit row list) ([], []) 2 2 id
     = Inl UnboundLocalError \<and>
   ([''group_id'' \<mapsto> (3::int)]) ''group_id'' = Some 3 \<and>
   contrastive_loader [''group_id'' \<mapsto> 3] ([], [] :: unit row list) ([], []) 0 0 id
     \<noteq> Inl UnboundLocalError \<and>
   0 < length (rows (load_contrastive_dp
                  [\<lparr>input = (), target = 0, ident = 0, group_id = 0\<rparr>] 1 2 2)) \<and>
   (contrastive_pair (load_contrastive_dp
                  [\<lparr>input = (), target = 0, ident = 0, group_id = 0\<rparr>] 1 2 2) ! 0) id
     \<noteq> Inl UnboundLocalError"
  using contrastive_loader_unbound [of "[''group_id'' \<mapsto> 1]" 1
          "([], []) :: unit row list \<times> unit row list" "([], [])" 2 2 id
          0 "[\<lparr>input = (), target = 0, ident = 0, group_id = 0\<rparr>]" 1 id]
        contrastive_loader_unbound [of "[''group_id'' \<mapsto> 3]" 3
          "([], []) :: unit row list \<times> unit row list" "([], [])" 0 0 id
          0 "[\<lparr>input = (), target = 0, ident = 0, group_id = 0\<rparr>]" 1 id]
  by (simp add: load_contrastive_dp_def Let_def)

section \<open>Properties of the contrastive loss\<close>

lemma sum_list_neg: "(\<Sum>x\<leftarrow>xs. - (f x :: real)) = - (\<Sum>x\<leftarrow>xs. f x)"
  by (induction xs) simp_all

lemma mean_neg: "mean (map (\<lambda>l. - 1 * l) xs) = - mean xs"
  by (simp add: mean_def sum_list_neg)

lemma spec_loss_mean:
  "spec_loss T ps ns =
     - mean (map (\<lambda>p. ln p - ln (p + sum_list (map (\<lambda>s. exp (s / T)) ns)))
               (map (\<lambda>s. exp (s / T)) ps))"
  by (simp add: spec_loss_def mean_def comp_def)

lemma forward_value:
  "forward self (Sequential k enc) (Batch a_input p_inputs n_inputs) =
     (if length (concat (enc [a_input])) = 1 then Inl IndexError
      else if \<not> list_all (\<lambda>v. length v = length (concat (enc [a_input])))
                   (enc p_inputs @ enc n_inputs)
      then Inl RuntimeError
      else if temperature self = 0 \<or> enc p_inputs = []
              \<or> \<not> list_all
                    (\<lambda>p. flt_min \<le> p
                         \<and> p + sum_list (map (\<lambda>s. exp (s / temperature self))
                                   (map (sim self (concat (enc [a_input]))) (enc n_inputs)))
                             \<le> flt_max)
                    (map (\<lambda>s. exp (s / temperature self))
                       (map (sim self (concat (enc [a_input]))) (enc p_inputs)))
      then Inr (T0 NonFinite)
      else Inr (T0 (Fin (spec_loss (temperature self)
                (map (sim self (concat (enc [a_input]))) (enc p_inputs))
                (map (sim self (concat (enc [a_input]))) (enc n_inputs))))))"
  unfolding forward_def Let_def pyarg.case mean_neg spec_loss_mean ..

lemma dot_zip_nth:
  assumes "length x = length y"
  shows "(\<Sum>(a, b)\<leftarrow>zip x y. a * b) = (\<Sum>i<length x. x ! i * (y ! i :: real))"
proof -
  have "(\<Sum>(a, b)\<leftarrow>zip x y. a * b) = (\<Sum>i = 0..<length (zip x y). (case zip x y ! i of (a, b) \<Rightarrow> a * b))"
    by (simp add: sum_list_sum_nth)
  also have "\<dots> = (\<Sum>i = 0..<length x. x ! i * y ! i)"
    using assms by (intro sum.cong) auto
  finally show ?thesis by (simp add: atLeast0LessThan)
qed

lemma torch_norm_nth: "torch_norm v = sqrt (\<Sum>i<length v. (v ! i)\<^sup>2)"
proof -
  have "(\<Sum>x\<leftarrow>v. x\<^sup>2) = (\<Sum>i = 0..<length v. (v ! i)\<^sup>2)"
    by (simp add: sum_list_sum_nth)
  then show ?thesis by (simp add: torch_norm_def atLeast0LessThan)
qed

text \<open>
  The similarity module computes the cosine of the specification whenever the product
  of the two lengths reaches its \<open>eps\<close>.
\<close>

lemma CosineSimilarity_cosine:
  assumes "length x = length y"
    and "1 / 10 ^ 8 \<le> sqrt (\<Sum>i<length x. (x ! i)\<^sup>2) * sqrt (\<Sum>i<length y. (y ! i)\<^sup>2)"
  shows "CosineSimilarity x y = cosine x y"
  unfolding CosineSimilarity_def cosine_def dot_zip_nth [OF assms(1)] torch_norm_nth
  using assms(2) by (simp add: max_def)

text \<open>
  Claim C1, as amended. For an object built by the constructor with a temperature
  \<open>T\<close> other than 0, an anchor embedding of width at least 2, a non-empty list of
  positive embeddings and a list of negative embeddings of that width, none so short
  that the similarity module clamps the denominator, and exponentials that stay inside
  the float32 range, \<open>forward\<close> returns the loss of the specification at the cosine
  similarities between the anchor embedding and each positive and each negative
  embedding (in real arithmetic).
\<close>

theorem forward_is_spec_loss:
  assumes init: "SupervisedContrastiveLoss_init [''temperature'' \<mapsto> T] = Inr self"
    and a: "a_output = concat (enc [a_input])"
    and w: "2 \<le> length a_output"
    and rows: "\<forall>v\<in>set (enc p_inputs @ enc n_inputs).
                 length v = length a_output \<and>
                 1 / 10 ^ 8 \<le> sqrt (\<Sum>i<length a_output. (a_output ! i)\<^sup>2)
                                * sqrt (\<Sum>i<length v. (v ! i)\<^sup>2)"
    and ne: "enc p_inputs \<noteq> []"
    and T: "T \<noteq> 0"
    and range: "\<forall>p\<in>set (enc p_inputs).
                  flt_min \<le> exp (cosine a_output p / T) \<and>
                  exp (cosine a_output p / T)
                    + (\<Sum>n\<leftarrow>enc n_inputs. exp (cosine a_output n / T)) \<le> flt_max"
  shows "forward self (Sequential k enc) (Batch a_input p_inputs n_inputs) =
     Inr (T0 (Fin (spec_loss T (map (cosine a_output) (enc p_inputs))
                               (map (cosine a_output) (enc n_inputs)))))"
proof -
  from init have s: "temperature self = T" "sim self = CosineSimilarity"
    by (auto simp: SupervisedContrastiveLoss_init_def)
  have c: "CosineSimilarity a_output v = cosine a_output v"
    if "v \<in> set (enc p_inputs @ enc n_inputs)" for v
  proof -
    from rows that have x: "length v = length a_output \<and>
           1 / 10 ^ 8 \<le> sqrt (\<Sum>i<length a_output. (a_output ! i)\<^sup>2)
                                * sqrt (\<Sum>i<length v. (v ! i)\<^sup>2)"
      by (rule bspec)
    from x have l: "length v = length a_output" by (rule conjunct1)
    from x have b: "1 / 10 ^ 8 \<le> sqrt (\<Sum>i<length a_output. (a_output ! i)\<^sup>2)
                                * sqrt (\<Sum>i<length v. (v ! i)\<^sup>2)"
      by (rule conjunct2)
    from l [symmetric] b show ?thesis by (rule CosineSimilarity_cosine)
  qed
  have mp: "map (CosineSimilarity a_output) (enc p_inputs) = map (cosine a_output) (enc p_inputs)"
    using c by (intro map_cong) auto
  have mn: "map (CosineSimilarity a_output) (enc n_inputs) = map (cosine a_output) (enc n_inputs)"
    using c by (intro map_cong) auto
  have w1: "length (concat (enc [a_input])) \<noteq> 1" using w a by simp
  have la: "list_all (\<lambda>v. length v = length (concat (enc [a_input]))) (enc p_inputs @ enc n_inputs)"
    using rows a unfolding list_all_iff by blast
  have rg: "list_all
              (\<lambda>p. flt_min \<le> p
                   \<and> p + sum_list (map (\<lambda>s. exp (s / T)) (map (cosine a_output) (enc n_inputs)))
                       \<le> flt_max)
              (map (\<lambda>s. exp (s / T)) (map (cosine a_output) (enc p_inputs)))"
    using range unfolding list_all_iff by (simp add: comp_def)
  show ?thesis
    unfolding forward_value s a [symmetric] mp mn
    using w1 la rg ne T unfolding a [symmetric] by simp
qed

lemma cosine2:
  "cosine [a, b] [c, d] = (a * c + b * d) / (sqrt (a\<^sup>2 + b\<^sup>2) * sqrt (c\<^sup>2 + d\<^sup>2))"
  by (simp add: cosine_def numeral_2_eq_2)

lemma sqrt_16: "sqrt 2 * sqrt 8 = 4"
proof -
  have "sqrt 2 * sqrt 8 = sqrt 16" by (simp add: real_sqrt_mult [symmetric])
  also have "sqrt 16 = sqrt (4\<^sup>2)" by simp
  also have "\<dots> = 4" by (simp del: power2_eq_square)
  finally show ?thesis .
qed

lemma sqrt_36: "sqrt 2 * sqrt 18 = 6"
proof -
  have "sqrt 2 * sqrt 18 = sqrt 36" by (simp add: real_sqrt_mult [symmetric])
  also have "sqrt 36 = sqrt (6\<^sup>2)" by simp
  also have "\<dots> = 6" by (simp del: power2_eq_square)
  finally show ?thesis .
qed

lemma exp_2_le: "exp (2::real) \<le> 9"
proof -
  have "exp (2::real) = exp 1 * exp 1" by (simp add: exp_add [symmetric])
  also have "\<dots> \<le> 3 * 3" by (intro mult_mono exp_le) simp_all
  finally show ?thesis by simp
qed

text \<open>
  The theorem at embeddings \<open>[1, 1]\<close> for the anchor, \<open>[2, 2]\<close> and \<open>[3, 3]\<close> for the
  positives (cosine 1) and \<open>[-1, -1]\<close> for the negative (cosine -1), temperature 1/2.
\<close>

theorem forward_is_spec_loss_witness:
  "SupervisedContrastiveLoss_init [''temperature'' \<mapsto> 1 / 2]
     = Inr \<lparr>temperature = 1 / 2, sim = CosineSimilarity\<rparr> \<and>
   concat (map (replicate 2 \<circ> real_of_int) [1]) = [1, 1] \<and>
   map (cosine [1, 1]) (map (replicate 2 \<circ> real_of_int) [2, 3]) = [1, 1] \<and>
   map (cosine [1, 1]) (map (replicate 2 \<circ> real_of_int) [- 1]) = [- 1] \<and>
   flt_min \<le> exp (1 / (1 / 2)) \<and> exp (1 / (1 / 2)) + exp (- 1 / (1 / 2)) \<le> flt_max \<and>
   forward \<lparr>temperature = 1 / 2, sim = CosineSimilarity\<rparr>
       (Sequential 9 (map (replicate 2 \<circ> real_of_int))) (Batch 1 [2, 3] [- 1])
     = Inr (T0 (Fin (spec_loss (1 / 2) [1, 1] [- 1])))"
proof -
  let ?enc = "map (replicate 2 \<circ> real_of_int)"
  have i: "SupervisedContrastiveLoss_init [''temperature'' \<mapsto> 1 / 2]
     = Inr \<lparr>temperature = 1 / 2, sim = CosineSimilarity\<rparr>"
    by (simp add: SupervisedContrastiveLoss_init_def)
  have a: "[1, 1] = concat (?enc [1])" by (simp add: numeral_2_eq_2)
  have w: "2 \<le> length [1, 1 :: real]" by simp
  have e: "?enc [2, 3] = [[2, 2], [3, 3]]" "?enc [- 1] = [[- 1, - 1]]"
    by (simp_all add: numeral_2_eq_2)
  have c1: "cosine [1, 1] [2, 2] = 1" by (simp add: cosine2 sqrt_16)
  have c2: "cosine [1, 1] [3, 3] = 1" by (simp add: cosine2 sqrt_36)
  have c3: "cosine [1, 1] [- 1, - 1] = - 1" by (simp add: cosine2)
  have n1: "(1::real) \<le> sqrt 2" "(1::real) \<le> sqrt 8" "(1::real) \<le> sqrt 18" by simp_all
  have rows: "\<forall>v\<in>set (?enc [2, 3] @ ?enc [- 1]).
                 length v = length [1, 1 :: real] \<and>
                 1 / 10 ^ 8 \<le> sqrt (\<Sum>i<length [1, 1 :: real]. ([1, 1] ! i)\<^sup>2)
                                * sqrt (\<Sum>i<length v. (v ! i)\<^sup>2)"
    unfolding e using sqrt_16 sqrt_36 by (simp add: numeral_2_eq_2)
  have ne: "?enc [2, 3] \<noteq> []" by simp
  have T: "(1 / 2 :: real) \<noteq> 0" by simp
  have fm: "10 \<le> flt_max" by (simp add: flt_max_def)
  have fl: "flt_min \<le> 1" by (simp add: flt_min_def)
  have x1: "(1::real) \<le> exp 2" by simp
  have x2: "exp (- 2 :: real) \<le> 1" by simp
  have r: "flt_min \<le> exp (2::real) \<and> exp (2::real) + exp (- 2) \<le> flt_max"
    using fm fl x1 x2 exp_2_le by linarith
  have range: "\<forall>p\<in>set (?enc [2, 3]).
                  flt_min \<le> exp (cosine [1, 1] p / (1 / 2)) \<and>
                  exp (cosine [1, 1] p / (1 / 2))
                    + (\<Sum>n\<leftarrow>?enc [- 1]. exp (cosine [1, 1] n / (1 / 2))) \<le> flt_max"
    unfolding e using r by (simp add: c1 c2 c3)
  have mp: "map (cosine [1, 1]) (?enc [2, 3]) = [1, 1]"
    unfolding e by (simp add: c1 c2)
  have mn: "map (cosine [1, 1]) (?enc [- 1]) = [- 1]"
    unfolding e by (simp add: c3)
  have f: "forward \<lparr>temperature = 1 / 2, sim = CosineSimilarity\<rparr>
       (Sequential 9 ?enc) (Batch 1 [2, 3] [- 1])
     = Inr (T0 (Fin (spec_loss (1 / 2) [1, 1] [- 1])))"
    using forward_is_spec_loss [OF i a w rows ne T range, of 9] unfolding mp mn .
  have r': "flt_min \<le> exp (1 / (1 / 2)) \<and> exp (1 / (1 / 2)) + exp (- 1 / (1 / 2)) \<le> flt_max"
    using r by simp
  from i a [symmetric] mp mn r' f show ?thesis by blast
qed

text \<open>
  Claim C1 as stated fails: with embeddings of width 1 \<open>forward\<close> raises
  \<open>IndexError\<close> and returns no loss, and with temperature 0 the loss it returns is not
  finite.
\<close>

theorem forward_fails_on_width_one:
  "forward \<lparr>temperature = 1 / 2, sim = CosineSimilarity\<rparr>
       (Sequential 9 (map (replicate 1 \<circ> real_of_int))) (Batch 1 [2, 3] [- 1])
     = Inl IndexError \<and>
   forward \<lparr>temperature = 0, sim = CosineSimilarity\<rparr>
       (Sequential 9 (map (replicate 2 \<circ> real_of_int))) (Batch 1 [2, 3] [- 1])
     = Inr (T0 NonFinite)"
  by (simp add: forward_value numeral_2_eq_2)

lemma sum_list_mset_cong:
  assumes "mset xs = mset ys"
  shows "(\<Sum>x\<leftarrow>xs. (f x :: real)) = (\<Sum>x\<leftarrow>ys. f x)"
proof -
  have "(\<Sum>x\<leftarrow>xs. f x) = sum_mset (image_mset f (mset xs))"
    by (simp add: sum_mset_sum_list [symmetric])
  also have "\<dots> = sum_mset (image_mset f (mset ys))" using assms by simp
  also have "\<dots> = (\<Sum>x\<leftarrow>ys. f x)"
    by (simp add: sum_mset_sum_list [symmetric])
  finally show ?thesis .
qed

lemma spec_loss_perm:
  assumes "mset ps' = mset ps" and "mset ns' = mset ns"
  shows "spec_loss T ps' ns' = spec_loss T ps ns"
proof -
  have n: "(\<Sum>n\<leftarrow>ns'. exp (n / T)) = (\<Sum>n\<leftarrow>ns. exp (n / T))"
    using assms(2) by (rule sum_list_mset_cong)
  have l: "length ps' = length ps"
    using assms(1) by (rule mset_eq_length)
  show ?thesis
    unfolding spec_loss_def n l
    using sum_list_mset_cong [OF assms(1)] by simp
qed

lemma list_all_mset_cong:
  assumes "mset xs = mset ys"
  shows "list_all P xs = list_all P ys"
  using mset_eq_setD [OF assms] by (simp add: list_all_iff)

text \<open>
  Claim C8. The loss is the same for every reordering of the positive embeddings and
  for every reordering of the negative embeddings, whatever the anchor, the similarity
  function and the temperature.
\<close>

theorem forward_permutation_invariant:
  assumes "mset (enc p_inputs') = mset (enc p_inputs)"
    and "mset (enc n_inputs') = mset (enc n_inputs)"
  shows "forward self (Sequential k enc) (Batch a_input p_inputs' n_inputs') =
         forward self (Sequential k enc) (Batch a_input p_inputs n_inputs)"
proof -
  let ?a = "concat (enc [a_input])"
  let ?T = "temperature self"
  have sp: "mset (map (sim self ?a) (enc p_inputs')) = mset (map (sim self ?a) (enc p_inputs))"
    using assms(1) by (metis mset_map)
  have sn: "mset (map (sim self ?a) (enc n_inputs')) = mset (map (sim self ?a) (enc n_inputs))"
    using assms(2) by (metis mset_map)
  have ep: "mset (map (\<lambda>s. exp (s / ?T)) (map (sim self ?a) (enc p_inputs')))
          = mset (map (\<lambda>s. exp (s / ?T)) (map (sim self ?a) (enc p_inputs)))"
    using sp by (metis mset_map)
  have ns: "sum_list (map (\<lambda>s. exp (s / ?T)) (map (sim self ?a) (enc n_inputs')))
          = sum_list (map (\<lambda>s. exp (s / ?T)) (map (sim self ?a) (enc n_inputs)))"
    using sn by (rule sum_list_mset_cong)
  have w: "list_all (\<lambda>v. length v = length ?a) (enc p_inputs' @ enc n_inputs')
         = list_all (\<lambda>v. length v = length ?a) (enc p_inputs @ enc n_inputs)"
    using assms by (intro list_all_mset_cong) simp
  have e: "(enc p_inputs' = []) = (enc p_inputs = [])"
    using assms(1) by (metis mset_zero_iff)
  have r: "list_all (\<lambda>p. flt_min \<le> p
                 \<and> p + sum_list (map (\<lambda>s. exp (s / ?T)) (map (sim self ?a) (enc n_inputs)))
                     \<le> flt_max)
              (map (\<lambda>s. exp (s / ?T)) (map (sim self ?a) (enc p_inputs')))
         = list_all (\<lambda>p. flt_min \<le> p
                 \<and> p + sum_list (map (\<lambda>s. exp (s / ?T)) (map (sim self ?a) (enc n_inputs)))
                     \<le> flt_max)
              (map (\<lambda>s. exp (s / ?T)) (map (sim self ?a) (enc p_inputs)))"
    using ep by (rule list_all_mset_cong)
  have l: "spec_loss ?T (map (sim self ?a) (enc p_inputs')) (map (sim self ?a) (enc n_inputs'))
         = spec_loss ?T (map (sim self ?a) (enc p_inputs)) (map (sim self ?a) (enc n_inputs))"
    using sp sn by (rule spec_loss_perm)
  show ?thesis
    unfolding forward_value ns w e r l ..
qed

text \<open>
  The theorem at a swap of two positives and a rotation of three negatives.
\<close>

theorem forward_permutation_invariant_witness:
  "mset (map (\<lambda>x. [x, 1]) [3, 2 :: real]) = mset (map (\<lambda>x. [x, 1]) [2, 3]) \<and>
   mset (map (\<lambda>x. [x, 1]) [7, 5, 6 :: real]) = mset (map (\<lambda>x. [x, 1]) [5, 6, 7]) \<and>
   forward \<lparr>temperature = 1 / 2, sim = CosineSimilarity\<rparr>
       (Sequential 9 (map (\<lambda>x. [x, 1]))) (Batch 1 [3, 2] [7, 5, 6]) =
   forward \<lparr>temperature = 1 / 2, sim = CosineSimilarity\<rparr>
       (Sequential 9 (map (\<lambda>x. [x, 1]))) (Batch 1 [2, 3] [5, 6, 7])"
proof -
  have p: "mset (map (\<lambda>x. [x, 1]) [3, 2 :: real]) = mset (map (\<lambda>x. [x, 1]) [2, 3])"
    by (simp add: add_mset_commute)
  have n: "mset (map (\<lambda>x. [x, 1]) [7, 5, 6 :: real]) = mset (map (\<lambda>x. [x, 1]) [5, 6, 7])"
    by (simp add: add_mset_commute)
  from p n forward_permutation_invariant [of "map (\<lambda>x. [x, 1])" "[3, 2]" "[2, 3]"
      "[7, 5, 6]" "[5, 6, 7]" "\<lparr>temperature = 1 / 2, sim = CosineSimilarity\<rparr>" 9 1]
  show ?thesis by blast
qed

text \<open>
  Claim C6 as stated fails: construction with temperature 0, and with temperature -1,
  returns an object and no error.
\<close>

theorem init_accepts_bad_temperature:
  "SupervisedContrastiveLoss_init [''temperature'' \<mapsto> 0]
     = Inr \<lparr>temperature = 0, sim = CosineSimilarity\<rparr> \<and>
   SupervisedContrastiveLoss_init [''temperature'' \<mapsto> - 1]
     = Inr \<lparr>temperature = - 1, sim = CosineSimilarity\<rparr>"
  by (simp add: SupervisedContrastiveLoss_init_def)

text \<open>
  Claim C6, as amended. The constructor stores whatever temperature the configuration
  holds, 0 and negative values included, and fails only when the key is missing, with
  \<open>KeyError\<close>. An object built with temperature 0 then divides by zero silently:
  on embeddings of one width other than 1, \<open>forward\<close> raises nothing and returns a
  loss that is not finite.
\<close>

theorem init_stores_temperature:
  "(config ''temperature'' = Some t \<longrightarrow>
      SupervisedContrastiveLoss_init config = Inr \<lparr>temperature = t, sim = CosineSimilarity\<rparr>) \<and>
   (config ''temperature'' = None \<longrightarrow> SupervisedContrastiveLoss_init config = Inl KeyError) \<and>
   (SupervisedContrastiveLoss_init [''temperature'' \<mapsto> 0] = Inr self \<and>
    length (concat (enc [a_input])) \<noteq> 1 \<and>
    (\<forall>v\<in>set (enc p_inputs @ enc n_inputs). length v = length (concat (enc [a_input]))) \<longrightarrow>
      forward self (Sequential k enc) (Batch a_input p_inputs n_inputs) = Inr (T0 NonFinite))"
proof (intro conjI impI)
  assume "config ''temperature'' = Some t"
  then show "SupervisedContrastiveLoss_init config = Inr \<lparr>temperature = t, sim = CosineSimilarity\<rparr>"
    by (simp add: SupervisedContrastiveLoss_init_def)
next
  assume "config ''temperature'' = None"
  then show "SupervisedContrastiveLoss_init config = Inl KeyError"
    by (simp add: SupervisedContrastiveLoss_init_def)
next
  assume h: "SupervisedContrastiveLoss_init [''temperature'' \<mapsto> 0] = Inr self \<and>
    length (concat (enc [a_input])) \<noteq> 1 \<and>
    (\<forall>v\<in>set (enc p_inputs @ enc n_inputs). length v = length (concat (enc [a_input])))"
  then have t: "temperature self = 0"
    by (auto simp: SupervisedContrastiveLoss_init_def)
  from h have w: "length (concat (enc [a_input])) \<noteq> 1" by simp
  from h have la: "list_all (\<lambda>v. length v = length (concat (enc [a_input])))
                     (enc p_inputs @ enc n_inputs)"
    unfolding list_all_iff by blast
  show "forward self (Sequential k enc) (Batch a_input p_inputs n_inputs) = Inr (T0 NonFinite)"
    unfolding forward_value using t w la by simp
qed

text \<open>
  The theorem at temperature 0, at the empty configuration and at embeddings of width 2.
\<close>

theorem init_stores_temperature_witness:
  "[''temperature'' \<mapsto> 0 :: real] ''temperature'' = Some 0 \<and>
   SupervisedContrastiveLoss_init [''temperature'' \<mapsto> 0]
     = Inr \<lparr>temperature = 0, sim = CosineSimilarity\<rparr> \<and>
   (Map.empty :: string \<rightharpoonup> real) ''temperature'' = None \<and>
   SupervisedContrastiveLoss_init Map.empty = Inl KeyError \<and>
   length (concat (map (replicate 2 \<circ> real_of_int) [1])) \<noteq> 1 \<and>
   forward \<lparr>temperature = 0, sim = CosineSimilarity\<rparr>
       (Sequential 9 (map (replicate 2 \<circ> real_of_int))) (Batch 1 [2, 3] [- 1])
     = Inr (T0 NonFinite)"
  using init_stores_temperature [of "[''temperature'' \<mapsto> 0]" 0
          "\<lparr>temperature = 0, sim = CosineSimilarity\<rparr>" "map (replicate 2 \<circ> real_of_int)"
          1 "[2, 3]" "[- 1]" 9]
        init_stores_temperature [of Map.empty 0
          "\<lparr>temperature = 0, sim = CosineSimilarity\<rparr>" "map (replicate 2 \<circ> real_of_int)"
          1 "[2, 3]" "[- 1]" 9]
  by (simp add: SupervisedContrastiveLoss_init_def numeral_2_eq_2)

section \<open>Properties of \<open>free_gpu\<close>\<close>

lemma detach_cpu_extends:
  assumes "t < length h"
  shows "\<exists>h1 d h2 c. detach h t = Inr (h1, d) \<and> cpu h1 d = Inr (h2, c) \<and>
           take (length h) h2 = h \<and> length h < length h2 \<and> length h \<le> c \<and> c < length h2"
proof -
  let ?h1 = "h @ [(h ! t)\<lparr>requires_grad := False\<rparr>]"
  have d: "detach h t = Inr (?h1, length h)"
    using assms by (simp add: detach_def)
  show ?thesis
  proof (cases "device (?h1 ! length h) = CPU")
    case True
    then have "cpu ?h1 (length h) = Inr (?h1, length h)"
      by (simp add: cpu_def)
    with d show ?thesis by simp
  next
    case False
    then have "cpu ?h1 (length h) = Inr (?h1 @ [(?h1 ! length h)\<lparr>device := CPU\<rparr>], length ?h1)"
      by (simp add: cpu_def)
    with d show ?thesis by simp
  qed
qed

lemma free_gpu_loop_frame:
  assumes "\<forall>t\<in>set ts. t < length h"
  shows "\<exists>h' tv'. free_gpu_loop h ts delete tv = Inr (h', tv') \<and>
           take (length h) h' = h \<and>
           (ts \<noteq> [] \<and> delete \<longrightarrow> tv' = None) \<and>
           (ts \<noteq> [] \<longrightarrow> (\<forall>c. tv' = Some c \<longrightarrow> length h \<le> c))"
  using assms
proof (induction ts arbitrary: h tv)
  case Nil
  then show ?case by simp
next
  case (Cons t ts)
  then have "t < length h" by simp
  from detach_cpu_extends [OF this] obtain h1 d h2 c where
    s: "detach h t = Inr (h1, d)" "cpu h1 d = Inr (h2, c)"
       "take (length h) h2 = h" "length h < length h2" "length h \<le> c"
    by blast
  let ?tv = "if delete then None else Some c"
  from Cons.prems s(4) have "\<forall>t\<in>set ts. t < length h2" by auto
  from Cons.IH [OF this, of ?tv] obtain h' tv' where
    r: "free_gpu_loop h2 ts delete ?tv = Inr (h', tv')" "take (length h2) h' = h2"
       "ts \<noteq> [] \<and> delete \<longrightarrow> tv' = None"
       "ts \<noteq> [] \<longrightarrow> (\<forall>c. tv' = Some c \<longrightarrow> length h2 \<le> c)"
    by blast
  have run: "free_gpu_loop h (t # ts) delete tv = Inr (h', tv')"
    using s(1,2) r(1) by simp
  have "take (length h) h' = take (length h) (take (length h2) h')"
    using s(4) by (simp add: min_def)
  then have frame: "take (length h) h' = h"
    using r(2) s(3) by simp
  have del: "delete \<longrightarrow> tv' = None"
  proof (cases ts)
    case Nil
    with r(1) show ?thesis by auto
  next
    case (Cons a list)
    with r(3) show ?thesis by simp
  qed
  have fresh: "\<forall>c'. tv' = Some c' \<longrightarrow> length h \<le> c'"
  proof (cases ts)
    case Nil
    with r(1) s(5) show ?thesis by (auto split: if_splits)
  next
    case (Cons a list)
    with r(4) s(4) show ?thesis by auto
  qed
  from run frame del fresh show ?case by blast
qed

lemma item_take:
  assumes "take n h' = h" and "a < length h"
  shows "item h' a = item h a"
proof -
  from assms have "a < n" "a < length h'" by auto
  moreover from assms have "h' ! a = h ! a"
    by (metis \<open>a < n\<close> nth_take)
  ultimately show ?thesis using assms(2) by (simp add: item_def)
qed

text \<open>
  Claim C10. For every heap and every list of tensors in it, \<open>free_gpu\<close> returns, and
  every object the caller could reach before the call is the same object afterwards:
  the heap is extended, never written. The loop variable ends unbound when \<open>delete\<close>
  is set and otherwise bound to an object allocated by the call. In particular the
  value read by \<open>item()\<close> from a released tensor is the value it had before.
\<close>

theorem free_gpu_no_effect:
  assumes "\<forall>t\<in>set tensors. t < length h"
  shows "\<exists>h'. free_gpu h tensors delete = Inr h' \<and>
           take (length h) h' = h \<and>
           (\<forall>a<length h. h' ! a = h ! a \<and> item h' a = item h a) \<and>
           (\<exists>tensor_var. free_gpu_loop h tensors delete None = Inr (h', tensor_var) \<and>
              (delete \<longrightarrow> tensor_var = None) \<and>
              (\<forall>c. tensor_var = Some c \<longrightarrow> length h \<le> c))"
proof -
  from free_gpu_loop_frame [OF assms, of delete None] obtain h' tv' where
    r: "free_gpu_loop h tensors delete None = Inr (h', tv')" "take (length h) h' = h"
       "tensors \<noteq> [] \<and> delete \<longrightarrow> tv' = None"
       "tensors \<noteq> [] \<longrightarrow> (\<forall>c. tv' = Some c \<longrightarrow> length h \<le> c)"
    by blast
  have tv: "(delete \<longrightarrow> tv' = None) \<and> (\<forall>c. tv' = Some c \<longrightarrow> length h \<le> c)"
  proof (cases tensors)
    case Nil
    with r(1) show ?thesis by simp
  next
    case (Cons a list)
    with r(3,4) show ?thesis by simp
  qed
  have nth: "h' ! a = h ! a" if "a < length h" for a
  proof -
    have "take (length h) h' ! a = h' ! a" using that by simp
    with r(2) show ?thesis by simp
  qed
  have "item h' a = item h a" if "a < length h" for a
    using r(2) that by (rule item_take)
  with nth have "\<forall>a<length h. h' ! a = h ! a \<and> item h' a = item h a" by blast
  moreover have "free_gpu h tensors delete = Inr h'"
    using r(1) by (simp add: free_gpu_def)
  ultimately show ?thesis using r(1,2) tv by blast
qed

text \<open>
  The theorem at the release of one loss tensor held on the GPU.
\<close>

theorem free_gpu_no_effect_witness:
  "(0 :: nat) < length [\<lparr>payload = T0 (Fin (7 / 2)), device = CUDA, requires_grad = True\<rparr>] \<and>
   free_gpu [\<lparr>payload = T0 (Fin (7 / 2)), device = CUDA, requires_grad = True\<rparr>] [0] True
     = Inr [\<lparr>payload = T0 (Fin (7 / 2)), device = CUDA, requires_grad = True\<rparr>,
            \<lparr>payload = T0 (Fin (7 / 2)), device = CUDA, requires_grad = False\<rparr>,
            \<lparr>payload = T0 (Fin (7 / 2)), device = CPU, requires_grad = False\<rparr>] \<and>
   item [\<lparr>payload = T0 (Fin (7 / 2)), device = CUDA, requires_grad = True\<rparr>,
            \<lparr>payload = T0 (Fin (7 / 2)), device = CUDA, requires_grad = False\<rparr>,
            \<lparr>payload = T0 (Fin (7 / 2)), device = CPU, requires_grad = False\<rparr>] 0 = Inr (Fin (7 / 2))"
  using free_gpu_no_effect [of "[0]" "[\<lparr>payload = T0 (Fin (7 / 2)), device = CUDA, requires_grad = True\<rparr>]" True]
  by (simp add: free_gpu_def detach_def cpu_def item_def)

section \<open>Properties of the contrastive part of the training step\<close>

lemma torch_norm_single: "torch_norm [x] = \<bar>x\<bar>"
  by (simp add: torch_norm_def)

lemma upt_Suc_shift: "[0..<Suc n] = 0 # map Suc [0..<n]"
  by (simp add: upt_conv_Cons map_Suc_upt del: upt_Suc)

lemma mask_select_idx:
  assumes "length xs = length m"
  shows "mask_select xs m = map ((!) xs) (filter ((!) m) [0..<length m])"
  using assms
proof (induction xs m rule: list_induct2)
  case Nil
  then show ?case by (simp add: mask_select_def)
next
  case (Cons x xs b m)
  have "mask_select (x # xs) (b # m) = (if b then [x] else []) @ mask_select xs m"
    by (simp add: mask_select_def)
  moreover have "map ((!) (x # xs)) (filter ((!) (b # m)) [0..<length (b # m)])
        = (if b then [x] else []) @ map ((!) xs) (filter ((!) m) [0..<length m])"
    by (simp add: upt_Suc_shift filter_map comp_def del: upt_Suc)
  ultimately show ?case using Cons.IH by simp
qed

lemma mask_sum_idx: "mask_sum m = length (filter ((!) m) [0..<length m])"
proof (induction m)
  case Nil
  then show ?case by (simp add: mask_sum_def)
next
  case (Cons b m)
  have "length (filter ((!) (b # m)) [0..<length (b # m)])
        = (if b then 1 else 0) + length (filter ((!) m) [0..<length m])"
    by (simp add: upt_Suc_shift filter_map comp_def del: upt_Suc)
  with Cons show ?case by (simp add: mask_sum_def)
qed

lemma filter_upt_cong:
  assumes "\<And>j. j < n \<Longrightarrow> P j = Q j"
  shows "filter P [0..<n] = filter Q [0..<n]"
  using assms by (intro filter_cong) auto

lemma gaze_masks_nth:
  assumes len: "length d = length t" and a: "a_ix < length t"
  shows "\<exists>p_mask n_mask.
           gaze_masks d t a_ix = (torch_median d, p_mask, n_mask) \<and>
           length p_mask = length t \<and> length n_mask = length t \<and>
           (\<forall>j<length t. n_mask ! j = (d ! j > torch_median d \<and> t ! j = t ! a_ix)) \<and>
           (\<forall>j<length t. p_mask ! j = (d ! j \<le> torch_median d \<and> t ! j = t ! a_ix \<and> j \<noteq> a_ix))"
proof -
  let ?al = "torch_median d"
  let ?same = "map (\<lambda>x. x = t ! a_ix) t"
  let ?n = "map2 (\<lambda>d s. d > ?al \<and> s) d ?same"
  let ?p = "(map2 (\<lambda>d s. d \<le> ?al \<and> s) d ?same)[a_ix := False]"
  have g: "gaze_masks d t a_ix = (?al, ?p, ?n)"
    by (simp add: gaze_masks_def Let_def)
  have ln: "length ?n = length t" and lp: "length ?p = length t"
    using len by simp_all
  have n: "?n ! j = (d ! j > ?al \<and> t ! j = t ! a_ix)" if "j < length t" for j
    using that len by simp
  have p: "?p ! j = (d ! j \<le> ?al \<and> t ! j = t ! a_ix \<and> j \<noteq> a_ix)" if "j < length t" for j
    using that len a by (cases "j = a_ix") simp_all
  from g ln lp n p show ?thesis by blast
qed

lemma select_companions_gaze:
  assumes nc: "\<not> cnc self" and pol: "cnc_gaze self \<or> randcon self"
    and lg: "length (gaze_features batch) = length (a_inputs batch)"
    and lt: "length (a_targets batch) = length (a_inputs batch)"
    and a: "a_ix < length (a_inputs batch)"
    and d: "d = (if randcon self then map rg [0..<length (a_inputs batch)]
                 else map (\<lambda>f. torch_norm (map2 (\<lambda>x y. x - y) f (gaze_features batch ! a_ix)))
                        (gaze_features batch))"
    and r: "rg' = (if randcon self then (\<lambda>k. rg (k + length (a_inputs batch))) else rg)"
  shows "select_companions self batch a_ix rg =
           (case gaze_masks d (a_targets batch) a_ix of (alpha, p_mask, n_mask) \<Rightarrow>
              if mask_sum p_mask < 2 \<or> mask_sum n_mask < 2 then Inr (None, rg')
              else Inr (Some (mask_select (a_inputs batch) p_mask,
                              mask_select (a_inputs batch) n_mask), rg'))"
proof -
  have ld: "length d = length (a_targets batch)"
    using d lg lt by simp
  from gaze_masks_nth [OF ld, of a_ix] a lt obtain p_mask n_mask where
    g: "gaze_masks d (a_targets batch) a_ix = (torch_median d, p_mask, n_mask)"
       "length p_mask = length (a_targets batch)"
    by auto
  show ?thesis
  proof (cases "randcon self")
    case True
    with nc pol lg lt a d r g ld show ?thesis
      by (simp add: select_companions_def Let_def rand_like_def)
  next
    case False
    with nc pol lg lt a d r g ld show ?thesis
      by (simp add: select_companions_def Let_def)
  qed
qed

text \<open>
  Claim C3, as amended. Under the feature-proximity and the random-control method, for
  every mini-batch whose columns have one length and every anchor index: the threshold
  \<open>alpha\<close> is the lower median of the distances (of the random draws, under random
  control) from the anchor to every example of the mini-batch, the anchor itself and the
  examples of other labels included; the negatives are exactly the same-label examples
  with distance above \<open>alpha\<close>, the positives exactly the same-label examples with
  distance at most \<open>alpha\<close> other than the anchor; and with fewer than two positives
  or fewer than two negatives the anchor is skipped: the step returns the heap and the
  running sums unchanged, without error.
\<close>

theorem gaze_companions:
  assumes nc: "\<not> cnc self" and pol: "cnc_gaze self \<or> randcon self"
    and lg: "length (gaze_features batch) = length (a_inputs batch)"
    and lt: "length (a_targets batch) = length (a_inputs batch)"
    and a: "a_ix < length (a_inputs batch)"
  shows
    "let n = length (a_inputs batch);
         gfeat_dist =
           (if randcon self then map rg [0..<n]
            else map (\<lambda>f. torch_norm (map2 (\<lambda>x y. x - y) f (gaze_features batch ! a_ix)))
                   (gaze_features batch));
         rg' = (if randcon self then (\<lambda>k. rg (k + n)) else rg);
         alpha = sort gfeat_dist ! ((n - 1) div 2);
         pos = filter (\<lambda>j. gfeat_dist ! j \<le> alpha
                          \<and> a_targets batch ! j = a_targets batch ! a_ix \<and> j \<noteq> a_ix) [0..<n];
         neg = filter (\<lambda>j. gfeat_dist ! j > alpha
                          \<and> a_targets batch ! j = a_targets batch ! a_ix) [0..<n]
     in select_companions self batch a_ix rg =
          (if length pos < 2 \<or> length neg < 2 then Inr (None, rg')
           else Inr (Some (map ((!) (a_inputs batch)) pos, map ((!) (a_inputs batch)) neg), rg')) \<and>
        (length pos < 2 \<or> length neg < 2 \<longrightarrow>
           anchor_step self batch a_ix (h, loss_sum, pos_sum, neg_sum, rg)
             = Inr (h, loss_sum, pos_sum, neg_sum, rg'))"
proof -
  let ?n = "length (a_inputs batch)"
  let ?d = "if randcon self then map rg [0..<?n]
            else map (\<lambda>f. torch_norm (map2 (\<lambda>x y. x - y) f (gaze_features batch ! a_ix)))
                   (gaze_features batch)"
  let ?rg = "if randcon self then (\<lambda>k. rg (k + ?n)) else rg"
  let ?al = "sort ?d ! ((?n - 1) div 2)"
  let ?P = "\<lambda>j. ?d ! j \<le> ?al \<and> a_targets batch ! j = a_targets batch ! a_ix \<and> j \<noteq> a_ix"
  let ?N = "\<lambda>j. ?d ! j > ?al \<and> a_targets batch ! j = a_targets batch ! a_ix"
  have ld: "length ?d = length (a_targets batch)" and ldn: "length ?d = ?n"
    using lg lt by simp_all
  have med: "torch_median ?d = ?al"
    unfolding torch_median_def ldn ..
  from gaze_masks_nth [OF ld, of a_ix] a lt obtain p_mask n_mask where
    g: "gaze_masks ?d (a_targets batch) a_ix = (torch_median ?d, p_mask, n_mask)"
    and lp: "length p_mask = ?n" and ln: "length n_mask = ?n"
    and nn: "\<forall>j<?n. n_mask ! j = (?d ! j > torch_median ?d
                         \<and> a_targets batch ! j = a_targets batch ! a_ix)"
    and pp: "\<forall>j<?n. p_mask ! j = (?d ! j \<le> torch_median ?d
                         \<and> a_targets batch ! j = a_targets batch ! a_ix \<and> j \<noteq> a_ix)"
    by auto
  have fp: "filter ((!) p_mask) [0..<?n] = filter ?P [0..<?n]"
    using pp unfolding med by (intro filter_upt_cong) blast
  have fn: "filter ((!) n_mask) [0..<?n] = filter ?N [0..<?n]"
    using nn unfolding med by (intro filter_upt_cong) blast
  have sp: "mask_sum p_mask = length (filter ?P [0..<?n])"
    unfolding mask_sum_idx lp fp ..
  have sn: "mask_sum n_mask = length (filter ?N [0..<?n])"
    unfolding mask_sum_idx ln fn ..
  have mp: "mask_select (a_inputs batch) p_mask = map ((!) (a_inputs batch)) (filter ?P [0..<?n])"
    using mask_select_idx [of "a_inputs batch" p_mask] lp fp by simp
  have mn: "mask_select (a_inputs batch) n_mask = map ((!) (a_inputs batch)) (filter ?N [0..<?n])"
    using mask_select_idx [of "a_inputs batch" n_mask] ln fn by simp
  have sel: "select_companions self batch a_ix rg =
          (if length (filter ?P [0..<?n]) < 2 \<or> length (filter ?N [0..<?n]) < 2
           then Inr (None, ?rg)
           else Inr (Some (map ((!) (a_inputs batch)) (filter ?P [0..<?n]),
                           map ((!) (a_inputs batch)) (filter ?N [0..<?n])), ?rg))"
    unfolding select_companions_gaze [OF nc pol lg lt a refl refl] g prod.case sp sn mp mn ..
  have skip: "anchor_step self batch a_ix (h, loss_sum, pos_sum, neg_sum, rg)
             = Inr (h, loss_sum, pos_sum, neg_sum, ?rg)"
    if "length (filter ?P [0..<?n]) < 2 \<or> length (filter ?N [0..<?n]) < 2"
  proof -
    from that sel have "select_companions self batch a_ix rg = Inr (None, ?rg)"
      by presburger
    then show ?thesis by (simp add: anchor_step_def)
  qed
  from sel skip show ?thesis unfolding Let_def by blast
qed

text \<open>
  The theorem at a mini-batch of six same-label examples, where the anchor keeps two
  positives and three negatives, and at a mini-batch of four, where it is skipped.
\<close>

theorem gaze_companions_witness:
  "\<not> False \<and> (True \<or> False) \<and>
   length [[0], [1], [2], [3], [4], [5 :: real]] = length [10, 11, 12, 13, 14, 15 :: nat] \<and>
   length [0, 0, 0, 0, 0, 0 :: int] = length [10, 11, 12, 13, 14, 15 :: nat] \<and>
   (0 :: nat) < length [10, 11, 12, 13, 14, 15 :: nat] \<and>
   select_companions
     \<lparr>cnc = False, cnc_gaze = True, randcon = False,
      contrastive_loss = \<lparr>temperature = 1, sim = CosineSimilarity\<rparr>,
      encoder = Sequential 9 (map (replicate 1 \<circ> real)), model_device = CUDA\<rparr>
     \<lparr>a_inputs = [10, 11, 12, 13, 14, 15], a_targets = [0, 0, 0, 0, 0, 0],
      gaze_features = [[0], [1], [2], [3], [4], [5]], all_p_inputs = [], all_n_inputs = []\<rparr>
     0 real
     = Inr (Some ([11, 12], [13, 14, 15]), real) \<and>
   length [[0], [1], [2], [3 :: real]] = length [10, 11, 12, 13 :: nat] \<and>
   length [0, 0, 0, 0 :: int] = length [10, 11, 12, 13 :: nat] \<and>
   (0 :: nat) < length [10, 11, 12, 13 :: nat] \<and>
   anchor_step
     \<lparr>cnc = False, cnc_gaze = True, randcon = False,
      contrastive_loss = \<lparr>temperature = 1, sim = CosineSimilarity\<rparr>,
      encoder = Sequential 9 (map (replicate 1 \<circ> real)), model_device = CUDA\<rparr>
     \<lparr>a_inputs = [10, 11, 12, 13], a_targets = [0, 0, 0, 0],
      gaze_features = [[0], [1], [2], [3]], all_p_inputs = [], all_n_inputs = []\<rparr>
     0 ([], Fin 0, Fin 0, Fin 0, real)
     = Inr ([], Fin 0, Fin 0, Fin 0, real)"
  using gaze_companions [of
     "\<lparr>cnc = False, cnc_gaze = True, randcon = False,
      contrastive_loss = \<lparr>temperature = 1, sim = CosineSimilarity\<rparr>,
      encoder = Sequential 9 (map (replicate 1 \<circ> real)), model_device = CUDA\<rparr>"
     "\<lparr>a_inputs = [10, 11, 12, 13, 14, 15], a_targets = [0, 0, 0, 0, 0, 0],
      gaze_features = [[0], [1], [2], [3], [4], [5]], all_p_inputs = [], all_n_inputs = []\<rparr>"
     0 real "[]" "Fin 0" "Fin 0" "Fin 0"]
    gaze_companions [of
     "\<lparr>cnc = False, cnc_gaze = True, randcon = False,
      contrastive_loss = \<lparr>temperature = 1, sim = CosineSimilarity\<rparr>,
      encoder = Sequential 9 (map (replicate 1 \<circ> real)), model_device = CUDA\<rparr>"
     "\<lparr>a_inputs = [10, 11, 12, 13], a_targets = [0, 0, 0, 0],
      gaze_features = [[0], [1], [2], [3]], all_p_inputs = [], all_n_inputs = []\<rparr>"
     0 real "[]" "Fin 0" "Fin 0" "Fin 0"]
  by (simp add: Let_def torch_norm_single)

text \<open>
  Claim C3 as stated fails. In a mini-batch of eleven examples with gaze features
  0, 1, 2, 3, 4, 5 (label 0) and 10, 20, 30, 40, 50 (label 1) and anchor 0, the distances
  to the other same-label examples are 1, 2, 3, 4, 5, with median 3, which would leave
  three positives and two negatives. The code takes the median of all eleven distances,
  5: no example is negative and the anchor is skipped.
\<close>

theorem gaze_alpha_counterexample:
  "select_companions
     \<lparr>cnc = False, cnc_gaze = True, randcon = False,
      contrastive_loss = \<lparr>temperature = 1, sim = CosineSimilarity\<rparr>,
      encoder = Sequential 9 (map (replicate 1 \<circ> real)), model_device = CUDA\<rparr>
     \<lparr>a_inputs = [10, 11, 12, 13, 14, 15, 16, 17, 18, 19, 20],
      a_targets = [0, 0, 0, 0, 0, 0, 1, 1, 1, 1, 1],
      gaze_features = [[0], [1], [2], [3], [4], [5], [10], [20], [30], [40], [50]],
      all_p_inputs = [], all_n_inputs = []\<rparr>
     0 real
     = Inr (None, real) \<and>
   gaze_masks [0, 1, 2, 3, 4, 5, 10, 20, 30, 40, 50] [0, 0, 0, 0, 0, 0, 1, 1, 1, 1, 1] 0
     = (5, [False, True, True, True, True, True, False, False, False, False, False],
           [False, False, False, False, False, False, False, False, False, False, False]) \<and>
   torch_median [1, 2, 3, 4, 5] = 3"
  by (simp add: select_companions_def gaze_masks_def torch_median_def mask_sum_def
        torch_norm_single Let_def)

lemma forward_swapped:
  "forward cl (Batch a p n) e =
     (case e of
        Batch x y z \<Rightarrow> Inl TypeError
      | Sequential k f \<Rightarrow> if k = 3 then Inl AttributeError else Inl ValueError)"
  by (simp add: forward_def split: pyarg.splits)

text \<open>
  Claim C5 does not hold of the code. For every anchor that is not skipped the step
  fails: the call at line 274 binds the input tuple to \<open>encoder\<close> and the encoder to
  \<open>contrastive_batch\<close>, so \<open>forward\<close> raises before it computes anything. With the
  arguments in the declared order \<open>forward\<close> returns one 0-d tensor, which the
  three-way unpacking of the trainer rejects with \<open>TypeError\<close>; no similarity is
  returned on any path.
\<close>

theorem trainer_call_fails:
  "(select_companions self batch a_ix rg = Inr (Some (p_inputs, n_inputs), rg') \<longrightarrow>
      anchor_step self batch a_ix (h, loss_sum, pos_sum, neg_sum, rg) =
        (case encoder self of
           Batch x y z \<Rightarrow> Inl TypeError
         | Sequential k f \<Rightarrow> if k = 3 then Inl AttributeError else Inl ValueError)) \<and>
   (forward cl (Sequential k' enc) (Batch a p n) = Inr t \<longrightarrow> unpack3 t = Inl TypeError)"
proof (intro conjI impI)
  assume "select_companions self batch a_ix rg = Inr (Some (p_inputs, n_inputs), rg')"
  then show "anchor_step self batch a_ix (h, loss_sum, pos_sum, neg_sum, rg) =
        (case encoder self of
           Batch x y z \<Rightarrow> Inl TypeError
         | Sequential k f \<Rightarrow> if k = 3 then Inl AttributeError else Inl ValueError)"
    by (simp add: anchor_step_def forward_swapped split: pyarg.splits)
next
  assume "forward cl (Sequential k' enc) (Batch a p n) = Inr t"
  then show "unpack3 t = Inl TypeError"
    by (auto simp: forward_def Let_def unpack3_def split: if_splits)
qed

text \<open>
  The theorem at a \<open>cnc\<close> mini-batch of one anchor with two positives and two negatives:
  the whole contrastive part of the step fails.
\<close>

theorem trainer_call_fails_witness:
  "select_companions
     \<lparr>cnc = True, cnc_gaze = False, randcon = False,
      contrastive_loss = \<lparr>temperature = 1 / 2, sim = CosineSimilarity\<rparr>,
      encoder = Sequential 9 (map (replicate 2 \<circ> real)), model_device = CUDA\<rparr>
     \<lparr>a_inputs = [10 :: nat], a_targets = [0], gaze_features = [],
      all_p_inputs = [[11, 12]], all_n_inputs = [[13, 14]]\<rparr>
     0 real
     = Inr (Some ([11, 12], [13, 14]), real) \<and>
   training_step_contrastive
     \<lparr>cnc = True, cnc_gaze = False, randcon = False,
      contrastive_loss = \<lparr>temperature = 1 / 2, sim = CosineSimilarity\<rparr>,
      encoder = Sequential 9 (map (replicate 2 \<circ> real)), model_device = CUDA\<rparr>
     \<lparr>a_inputs = [10 :: nat], a_targets = [0], gaze_features = [],
      all_p_inputs = [[11, 12]], all_n_inputs = [[13, 14]]\<rparr>
     [] real
     = Inl ValueError \<and>
   (\<exists>l. forward \<lparr>temperature = 1 / 2, sim = CosineSimilarity\<rparr>
          (Sequential 9 (map (replicate 2 \<circ> real))) (Batch (10 :: nat) [11, 12] [13, 14])
        = Inr (T0 l)) \<and>
   unpack3 (T0 (Fin 0)) = Inl TypeError"
  using trainer_call_fails [of
     "\<lparr>cnc = True, cnc_gaze = False, randcon = False,
      contrastive_loss = \<lparr>temperature = 1 / 2, sim = CosineSimilarity\<rparr>,
      encoder = Sequential 9 (map (replicate 2 \<circ> real)), model_device = CUDA\<rparr>"
     "\<lparr>a_inputs = [10 :: nat], a_targets = [0], gaze_features = [],
      all_p_inputs = [[11, 12]], all_n_inputs = [[13, 14]]\<rparr>"
     0 real "[11, 12]" "[13, 14]" real "[]" "Fin 0" "Fin 0" "Fin 0"
     "\<lparr>temperature = 1 / 2, sim = CosineSimilarity\<rparr>" 9 "map (replicate 2 \<circ> real)"
     10 "[11, 12]" "[13, 14]" "T0 (Fin 0)"]
  by (simp add: select_companions_def training_step_contrastive_def forward_def Let_def
        unpack3_def)

section \<open>Properties of the group ids\<close>

lemma nan_add_NaN: "nan_add NaN y = NaN" "nan_add x NaN = NaN"
  by (simp_all add: nan_add_def split: num.splits)

lemma nan_add_Exact:
  "\<bar>a + b\<bar> \<le> exact_bound \<Longrightarrow> nan_add (Exact a) (Exact b) = Exact (a + b)"
  by (simp add: nan_add_def)

lemma pow_le_bound: "i < 52 \<Longrightarrow> \<bar>2 ^ (i + 1) :: int\<bar> \<le> exact_bound"
proof -
  assume "i < 52"
  then have "i + 1 \<le> 53" by simp
  then have "(2::int) ^ (i + 1) \<le> 2 ^ 53" by (intro power_increasing) simp_all
  then show ?thesis by (simp add: exact_bound_def)
qed

lemma scale_None: "i < 52 \<Longrightarrow> nan_scale (2 ^ (i + 1)) (load_cell None) = NaN"
  using pow_le_bound [of i] by (simp add: nan_scale_def load_cell_def)

lemma scale_Some:
  assumes "i < 52" and "0 \<le> a" and "2 ^ (i + 1) * a \<le> exact_bound"
  shows "nan_scale (2 ^ (i + 1)) (load_cell (Some a)) = Exact (2 ^ (i + 1) * a)"
proof -
  have p: "(1::int) \<le> 2 ^ (i + 1)" by (rule one_le_power) simp
  have n: "0 \<le> 2 ^ (i + 1) * a" using assms(2) by simp
  have "a \<le> 2 ^ (i + 1) * a" using assms(2) p by (simp add: mult_le_cancel_right1)
  with assms(3) have "a \<le> exact_bound" by linarith
  with assms(2) have l: "load_cell (Some a) = Exact a" by (simp add: load_cell_def)
  have k: "\<not> exact_bound < \<bar>2 ^ (i + 1) :: int\<bar>" using pow_le_bound [OF assms(1)] by simp
  have "\<bar>2 ^ (i + 1) * a\<bar> \<le> exact_bound" using n assms(3) by simp
  then show ?thesis unfolding l nan_scale_def using k by simp
qed

lemma packing_loop_length:
  assumes lt: "length target_col = n" and lc: "\<forall>c\<in>set subgroup_cols. length c = n"
    and k: "k \<le> length subgroup_cols"
  shows "length (fold (\<lambda>i acc. map2 nan_add acc
                          (map (\<lambda>c. nan_scale (2 ^ (i + 1)) (load_cell c)) (subgroup_cols ! i)))
                   [0..<k] (map load_cell target_col)) = n"
  using k
proof (induction k)
  case 0
  with lt show ?case by simp
next
  case (Suc k)
  then have "subgroup_cols ! k \<in> set subgroup_cols" by simp
  with lc have "length (subgroup_cols ! k) = n" by blast
  with Suc show ?case by simp
qed

lemma packing_loop_step:
  assumes lt: "length target_col = n" and lc: "\<forall>c\<in>set subgroup_cols. length c = n"
    and j: "j < n" and k: "Suc k \<le> length subgroup_cols"
  shows "fold (\<lambda>i acc. map2 nan_add acc
                   (map (\<lambda>c. nan_scale (2 ^ (i + 1)) (load_cell c)) (subgroup_cols ! i)))
              [0..<Suc k] (map load_cell target_col) ! j
         = nan_add (fold (\<lambda>i acc. map2 nan_add acc
                            (map (\<lambda>c. nan_scale (2 ^ (i + 1)) (load_cell c)) (subgroup_cols ! i)))
                       [0..<k] (map load_cell target_col) ! j)
                   (nan_scale (2 ^ (k + 1)) (load_cell (subgroup_cols ! k ! j)))"
proof -
  from k have "k \<le> length subgroup_cols" by simp
  from packing_loop_length [OF lt lc this] have la:
    "length (fold (\<lambda>i acc. map2 nan_add acc
                          (map (\<lambda>c. nan_scale (2 ^ (i + 1)) (load_cell c)) (subgroup_cols ! i)))
                   [0..<k] (map load_cell target_col)) = n" .
  from k have "subgroup_cols ! k \<in> set subgroup_cols" by simp
  with lc have lk: "length (subgroup_cols ! k) = n" by blast
  show ?thesis using la lk j by simp
qed

lemma packing_loop_exact:
  assumes lt: "length target_col = n" and lc: "\<forall>c\<in>set subgroup_cols. length c = n"
    and j: "j < n" and k: "k \<le> length subgroup_cols" and k52: "k \<le> 52"
    and t: "target_col ! j = Some t" "0 \<le> t"
    and a: "\<forall>i<k. subgroup_cols ! i ! j = Some (a i) \<and> 0 \<le> a i"
    and b: "t + (\<Sum>i<k. 2 ^ (i + 1) * a i) \<le> exact_bound"
  shows "fold (\<lambda>i acc. map2 nan_add acc
                   (map (\<lambda>c. nan_scale (2 ^ (i + 1)) (load_cell c)) (subgroup_cols ! i)))
              [0..<k] (map load_cell target_col) ! j
         = Exact (t + (\<Sum>i<k. 2 ^ (i + 1) * a i))"
  using k k52 a b
proof (induction k)
  case 0
  then have "\<bar>t\<bar> \<le> exact_bound" using t(2) by simp
  then show ?case using j lt t(1) by (simp add: load_cell_def)
next
  case (Suc k)
  let ?s = "\<Sum>i<k. 2 ^ (i + 1) * a i"
  from Suc.prems have ak: "subgroup_cols ! k ! j = Some (a k)" "0 \<le> a k" by simp_all
  then have nk: "0 \<le> 2 ^ (k + 1) * a k" by simp
  have ns: "0 \<le> ?s" using Suc.prems(3) by (intro sum_nonneg) simp
  from Suc.prems(4) have tot: "t + ?s + 2 ^ (k + 1) * a k \<le> exact_bound" by simp
  with nk have bs: "t + ?s \<le> exact_bound" by linarith
  from tot ns t(2) have bk: "2 ^ (k + 1) * a k \<le> exact_bound" by linarith
  from Suc.prems have "k \<le> length subgroup_cols" "k \<le> 52" "\<forall>i<k. subgroup_cols ! i ! j = Some (a i) \<and> 0 \<le> a i"
    by simp_all
  from Suc.IH [OF this bs] have ih:
    "fold (\<lambda>i acc. map2 nan_add acc
                   (map (\<lambda>c. nan_scale (2 ^ (i + 1)) (load_cell c)) (subgroup_cols ! i)))
              [0..<k] (map load_cell target_col) ! j = Exact (t + ?s)" .
  from Suc.prems(2) have k52: "k < 52" by simp
  have sc: "nan_scale (2 ^ (k + 1)) (load_cell (subgroup_cols ! k ! j)) = Exact (2 ^ (k + 1) * a k)"
    unfolding ak(1) using k52 ak(2) bk by (rule scale_Some)
  have "0 \<le> t + ?s + 2 ^ (k + 1) * a k" using t(2) ns nk by linarith
  with tot have ab: "\<bar>(t + ?s) + 2 ^ (k + 1) * a k\<bar> \<le> exact_bound" by simp
  show ?case
    unfolding packing_loop_step [OF lt lc j Suc.prems(1)] ih sc nan_add_Exact [OF ab]
    by simp
qed

lemma packing_loop_nan:
  assumes lt: "length target_col = n" and lc: "\<forall>c\<in>set subgroup_cols. length c = n"
    and j: "j < n" and k: "k \<le> length subgroup_cols" and k52: "k \<le> 52"
    and m: "\<exists>i<k. subgroup_cols ! i ! j = None"
  shows "fold (\<lambda>i acc. map2 nan_add acc
                   (map (\<lambda>c. nan_scale (2 ^ (i + 1)) (load_cell c)) (subgroup_cols ! i)))
              [0..<k] (map load_cell target_col) ! j = NaN"
  using k k52 m
proof (induction k)
  case 0
  then show ?case by simp
next
  case (Suc k)
  from Suc.prems(2) have k52: "k < 52" by simp
  show ?case
  proof (cases "subgroup_cols ! k ! j")
    case None
    show ?thesis
      unfolding packing_loop_step [OF lt lc j Suc.prems(1)] None scale_None [OF k52]
      by (rule nan_add_NaN)
  next
    case (Some v)
    with Suc.prems(3) have "\<exists>i<k. subgroup_cols ! i ! j = None"
      using less_Suc_eq by auto
    moreover from Suc.prems have "k \<le> length subgroup_cols" "k \<le> 52" by simp_all
    ultimately have "fold (\<lambda>i acc. map2 nan_add acc
                   (map (\<lambda>c. nan_scale (2 ^ (i + 1)) (load_cell c)) (subgroup_cols ! i)))
              [0..<k] (map load_cell target_col) ! j = NaN"
      using Suc.IH by blast
    then show ?thesis
      unfolding packing_loop_step [OF lt lc j Suc.prems(1)] by (simp only: nan_add_NaN)
  qed
qed

lemma compute_group_ids_nth:
  assumes lt: "length target_col = n" and lc: "\<forall>c\<in>set subgroup_cols. length c = n"
    and j: "j < n"
  shows "compute_group_ids target_col subgroup_cols ! j =
           (case fold (\<lambda>i acc. map2 nan_add acc
                   (map (\<lambda>c. nan_scale (2 ^ (i + 1)) (load_cell c)) (subgroup_cols ! i)))
              [0..<length subgroup_cols] (map load_cell target_col) ! j of
              NaN \<Rightarrow> Exact (- 1) | Exact v \<Rightarrow> Exact v | Inexact \<Rightarrow> Inexact)"
proof -
  let ?g = "fold (\<lambda>i acc. map2 nan_add acc
                   (map (\<lambda>c. nan_scale (2 ^ (i + 1)) (load_cell c)) (subgroup_cols ! i)))
              [0..<length subgroup_cols] (map load_cell target_col)"
  have l: "length ?g = n" using lt lc le_refl by (rule packing_loop_length)
  have e: "compute_group_ids target_col subgroup_cols
           = map (\<lambda>c. case c of NaN \<Rightarrow> Exact (- 1) | Exact v \<Rightarrow> Exact v | Inexact \<Rightarrow> Inexact) ?g"
    by (cases subgroup_cols) (simp_all add: compute_group_ids_def Let_def del: upt_Suc)
  show ?thesis unfolding e using l j by simp
qed

lemma packed_shift:
  "(\<Sum>i<Suc k. 2 ^ i * a i) = a 0 + 2 * (\<Sum>i<k. 2 ^ i * a (Suc i) :: nat)"
proof -
  have "(\<Sum>i<Suc k. 2 ^ i * a i) = 2 ^ 0 * a 0 + (\<Sum>i<k. 2 ^ Suc i * a (Suc i))"
    by (rule sum.lessThan_Suc_shift)
  also have "(\<Sum>i<k. 2 ^ Suc i * a (Suc i)) = 2 * (\<Sum>i<k. 2 ^ i * a (Suc i))"
    by (simp add: sum_distrib_left mult.assoc)
  finally show ?thesis by simp
qed

lemma packed_bit:
  assumes "\<forall>i<k. a i = 0 \<or> a i = (1::nat)" and "m < k"
  shows "((\<Sum>i<k. 2 ^ i * a i) div 2 ^ m) mod 2 = a m"
  using assms
proof (induction k arbitrary: a m)
  case 0
  then show ?case by simp
next
  case (Suc k)
  let ?r = "\<Sum>i<k. 2 ^ i * a (Suc i)"
  from Suc.prems(1) have a0: "a 0 = 0 \<or> a 0 = 1" by blast
  show ?case
  proof (cases m)
    case 0
    have "(a 0 + 2 * ?r) mod 2 = a 0" using a0 by auto
    with 0 show ?thesis unfolding packed_shift by simp
  next
    case (Suc m')
    have half: "(a 0 + 2 * ?r) div 2 = ?r" using a0 by auto
    have "(a 0 + 2 * ?r) div 2 ^ Suc m' = ((a 0 + 2 * ?r) div 2) div 2 ^ m'"
      by (simp add: div_mult2_eq)
    then have e: "(a 0 + 2 * ?r) div 2 ^ Suc m' = ?r div 2 ^ m'"
      unfolding half .
    from Suc.prems(1) have p: "\<forall>i<k. a (Suc i) = 0 \<or> a (Suc i) = 1" by auto
    from Suc.prems(2) Suc have mk: "m' < k" by simp
    from Suc.IH [of "\<lambda>i. a (Suc i)" m', OF p mk]
    have "(?r div 2 ^ m') mod 2 = a (Suc m')" .
    then show ?thesis unfolding packed_shift Suc e .
  qed
qed

lemma packed_bounds:
  assumes "\<forall>i<k. a i = 0 \<or> a i = (1::nat)"
  shows "(\<Sum>i<k. 2 ^ i * a i) < 2 ^ k"
  using assms
proof (induction k)
  case 0
  then show ?case by simp
next
  case (Suc k)
  then have "(\<Sum>i<k. 2 ^ i * a i) < 2 ^ k" by simp
  moreover from Suc.prems have "a k \<le> 1" by auto
  then have "2 ^ k * a k \<le> (2::nat) ^ k" by simp
  ultimately have "(\<Sum>i<k. 2 ^ i * a i) + 2 ^ k * a k < 2 ^ k + 2 ^ k" by linarith
  then show ?case by simp
qed

lemma group_bits_packed:
  assumes t: "t = 0 \<or> t = (1::nat)" and b: "\<forall>i<k. b i = 0 \<or> b i = (1::nat)"
  shows "group_bits k (t + 2 * (\<Sum>i<k. 2 ^ i * b i)) = (t \<noteq> 0, map (\<lambda>i. b i \<noteq> 0) [0..<k])"
proof -
  let ?s = "\<Sum>i<k. 2 ^ i * b i"
  have m: "(t + 2 * ?s) mod 2 = t" and h: "(t + 2 * ?s) div 2 = ?s"
    using t by auto
  have "((t + 2 * ?s) div 2 ^ (ndx + 1)) mod 2 = b ndx" if "ndx < k" for ndx
  proof -
    have "(t + 2 * ?s) div 2 ^ (ndx + 1) = ((t + 2 * ?s) div 2) div 2 ^ ndx"
      by (simp add: div_mult2_eq)
    then have "(t + 2 * ?s) div 2 ^ (ndx + 1) = ?s div 2 ^ ndx"
      unfolding h .
    then show ?thesis using packed_bit [OF b that] by simp
  qed
  then have "map (\<lambda>ndx. ((t + 2 * ?s) div 2 ^ (ndx + 1)) mod 2 \<noteq> 0) [0..<k]
             = map (\<lambda>i. b i \<noteq> 0) [0..<k]"
    by (intro map_cong) auto
  then show ?thesis unfolding group_bits_def m by simp
qed

lemma packing_int:
  assumes "\<forall>i<k. a i = int (b i)"
  shows "(\<Sum>i<k. 2 ^ (i + 1) * a i) = int (2 * (\<Sum>i<k. 2 ^ i * b i))"
proof -
  have "(\<Sum>i<k. 2 ^ (i + 1) * a i) = (\<Sum>i<k. int (2 * (2 ^ i * b i)))"
    using assms by (intro sum.cong) auto
  also have "\<dots> = int (\<Sum>i<k. 2 * (2 ^ i * b i))" by simp
  also have "(\<Sum>i<k. 2 * (2 ^ i * b i)) = 2 * (\<Sum>i<k. 2 ^ i * b i)"
    by (simp add: sum_distrib_left)
  finally show ?thesis .
qed

text \<open>
  Claim C4, as amended. For every example (row \<open>j\<close> of columns of one length, with at
  most 52 subgroup columns): when the target and every subgroup attribute are present
  and not negative and the packed value is at most \<open>2^53\<close>, the stored group id is the
  target plus the sum over \<open>i\<close> of \<open>2^(i+1)\<close> times attribute \<open>i\<close>; when a subgroup
  attribute is missing it is -1; and when the target and every attribute are 0 or 1,
  the group id lies between 0 and \<open>2^(k+1) - 1\<close> and the bits the code reads off it
  are the target and the attributes it was packed from.
\<close>

theorem group_id_packing:
  assumes lt: "length target_col = n" and lc: "\<forall>c\<in>set subgroup_cols. length c = n"
    and j: "j < n" and k52: "length subgroup_cols \<le> 52"
  shows
   "(target_col ! j = Some t \<and> 0 \<le> t \<and>
     (\<forall>i<length subgroup_cols. subgroup_cols ! i ! j = Some (a i) \<and> 0 \<le> a i) \<and>
     t + (\<Sum>i<length subgroup_cols. 2 ^ (i + 1) * a i) \<le> 2 ^ 53 \<longrightarrow>
       compute_group_ids target_col subgroup_cols ! j
         = Exact (t + (\<Sum>i<length subgroup_cols. 2 ^ (i + 1) * a i))) \<and>
    ((\<exists>i<length subgroup_cols. subgroup_cols ! i ! j = None) \<longrightarrow>
       compute_group_ids target_col subgroup_cols ! j = Exact (- 1)) \<and>
    (target_col ! j = Some t \<and> (t = 0 \<or> t = 1) \<and>
     (\<forall>i<length subgroup_cols. subgroup_cols ! i ! j = Some (a i) \<and> (a i = 0 \<or> a i = 1)) \<longrightarrow>
       (\<exists>g. compute_group_ids target_col subgroup_cols ! j = Exact g \<and>
            0 \<le> g \<and> g < 2 ^ (length subgroup_cols + 1) \<and>
            group_bits (length subgroup_cols) (nat g)
              = (t \<noteq> 0, map (\<lambda>i. a i \<noteq> 0) [0..<length subgroup_cols])))"
proof -
  let ?k = "length subgroup_cols"
  let ?g = "compute_group_ids target_col subgroup_cols ! j"
  note g = compute_group_ids_nth [OF lt lc j]
  have A: "?g = Exact (t + (\<Sum>i<?k. 2 ^ (i + 1) * a i))"
    if h: "target_col ! j = Some t \<and> 0 \<le> t \<and>
           (\<forall>i<?k. subgroup_cols ! i ! j = Some (a i) \<and> 0 \<le> a i) \<and>
           t + (\<Sum>i<?k. 2 ^ (i + 1) * a i) \<le> 2 ^ 53" for t a
  proof -
    from h have t: "target_col ! j = Some t" "0 \<le> t"
      and a: "\<forall>i<?k. subgroup_cols ! i ! j = Some (a i) \<and> 0 \<le> a i"
      and b: "t + (\<Sum>i<?k. 2 ^ (i + 1) * a i) \<le> exact_bound"
      by (simp_all add: exact_bound_def)
    show ?thesis
      unfolding g packing_loop_exact [OF lt lc j le_refl k52 t a b] by simp
  qed
  have B: "?g = Exact (- 1)" if h: "\<exists>i<?k. subgroup_cols ! i ! j = None"
    unfolding g packing_loop_nan [OF lt lc j le_refl k52 h] by simp
  have C: "\<exists>g. ?g = Exact g \<and> 0 \<le> g \<and> g < 2 ^ (?k + 1) \<and>
           group_bits ?k (nat g) = (t \<noteq> 0, map (\<lambda>i. a i \<noteq> 0) [0..<?k])"
    if h: "target_col ! j = Some t \<and> (t = 0 \<or> t = 1) \<and>
           (\<forall>i<?k. subgroup_cols ! i ! j = Some (a i) \<and> (a i = 0 \<or> a i = 1))"
  proof -
    let ?b = "\<lambda>i. nat (a i)"
    let ?s = "\<Sum>i<?k. 2 ^ i * ?b i"
    let ?v = "t + (\<Sum>i<?k. 2 ^ (i + 1) * a i)"
    from h have tb: "nat t = 0 \<or> nat t = 1" and ti: "t = int (nat t)" by auto
    from h have bb: "\<forall>i<?k. ?b i = 0 \<or> ?b i = 1" by auto
    from h have ab: "\<forall>i<?k. a i = int (?b i)" by auto
    have "?v = int (nat t) + int (2 * ?s)"
      using ti packing_int [OF ab] by simp
    then have vi: "?v = int (nat t + 2 * ?s)" by simp
    have vn: "nat ?v = nat t + 2 * ?s" unfolding vi by (rule nat_int)
    from packed_bounds [OF bb] tb have "nat t + 2 * ?s < 2 ^ (?k + 1)" by auto
    then have "int (nat t + 2 * ?s) < 2 ^ (?k + 1)"
      by (metis of_nat_less_iff of_nat_numeral of_nat_power)
    then have ub: "?v < 2 ^ (?k + 1)" unfolding vi .
    have ge: "0 \<le> ?v" unfolding vi by (rule of_nat_0_le_iff)
    from k52 have "?k + 1 \<le> 53" by simp
    then have "(2::int) ^ (?k + 1) \<le> 2 ^ 53" by (intro power_increasing) simp_all
    with ub have le: "?v \<le> 2 ^ 53" by linarith
    from h have "target_col ! j = Some t \<and> 0 \<le> t \<and>
           (\<forall>i<?k. subgroup_cols ! i ! j = Some (a i) \<and> 0 \<le> a i)"
      by auto
    with le have ex: "?g = Exact ?v" by (intro A) blast
    have "group_bits ?k (nat ?v) = (nat t \<noteq> 0, map (\<lambda>i. ?b i \<noteq> 0) [0..<?k])"
      unfolding vn using tb bb by (rule group_bits_packed)
    moreover have "(nat t \<noteq> 0) = (t \<noteq> 0)" using h by auto
    moreover have "map (\<lambda>i. ?b i \<noteq> 0) [0..<?k] = map (\<lambda>i. a i \<noteq> 0) [0..<?k]"
      using h by (intro map_cong) auto
    ultimately have "group_bits ?k (nat ?v) = (t \<noteq> 0, map (\<lambda>i. a i \<noteq> 0) [0..<?k])"
      by simp
    with ex ge ub show ?thesis by blast
  qed
  from A [of t a] B C show ?thesis by blast
qed

text \<open>
  The theorem at three examples with one subgroup column, the second example with a
  missing attribute.
\<close>

theorem group_id_packing_witness:
  "length [Some 1, Some 0, Some (1::int)] = 3 \<and>
   length [Some 1, None, Some (0::int)] = 3 \<and> (0::nat) < 3 \<and> (1::nat) < 3 \<and>
   length [[Some 1, None, Some (0::int)]] \<le> 52 \<and>
   compute_group_ids [Some 1, Some 0, Some 1] [[Some 1, None, Some 0]] ! 0 = Exact 3 \<and>
   compute_group_ids [Some 1, Some 0, Some 1] [[Some 1, None, Some 0]] ! 1 = Exact (- 1) \<and>
   group_bits 1 3 = (True, [True])"
  using group_id_packing [of "[Some 1, Some 0, Some 1]" 3 "[[Some 1, None, Some 0]]" 0 1 "\<lambda>i. 1"]
        group_id_packing [of "[Some 1, Some 0, Some 1]" 3 "[[Some 1, None, Some 0]]" 1 0 "\<lambda>i. 1"]
  by (simp add: group_bits_def)

text \<open>
  Claim C4 as stated fails for a target label outside 0 and 1: target 2 with attribute
  0 and target 0 with attribute 1 are both stored as group id 2, which is not negative
  and which decodes to target 0 with attribute 1, so the first example is not recovered.
\<close>

theorem group_id_not_injective:
  "compute_group_ids [Some 2] [[Some 0]] = [Exact 2] \<and>
   compute_group_ids [Some 0] [[Some 1]] = [Exact 2] \<and>
   group_bits 1 2 = (False, [True])"
  by (simp add: compute_group_ids_def group_bits_def nan_add_def nan_scale_def load_cell_def
        exact_bound_def)

section \<open>Properties of the robust sampler weights\<close>

lemma mask_sum_map: "mask_sum (map P xs) = length (filter P xs)"
  by (induction xs) (simp_all add: mask_sum_def)

lemma masked_assign_nth:
  assumes "j < length ws" and "length m = length ws"
  shows "masked_assign ws m v ! j = (if m ! j then v else ws ! j)"
  using assms by (simp add: masked_assign_def)

lemma masked_assign_length:
  "length m = length ws \<Longrightarrow> length (masked_assign ws m v) = length ws"
  by (simp add: masked_assign_def)

lemma names_length:
  "length (subgroup_columns_names target_column subgroup_columns)
     = 2 ^ (length subgroup_columns + 1)"
  by (simp add: subgroup_columns_names_def)

lemma weights_loop:
  assumes j: "j < length gids"
  shows "length (fold (\<lambda>group_i weights.
             let group_mask = map (\<lambda>g. g = int group_i) gids
             in masked_assign weights group_mask
                  ((1 + (real (length gids) - real (mask_sum group_mask))
                          / real (length gids)) powr alpha))
          [0..<k] (replicate (length gids) 1)) = length gids \<and>
         fold (\<lambda>group_i weights.
             let group_mask = map (\<lambda>g. g = int group_i) gids
             in masked_assign weights group_mask
                  ((1 + (real (length gids) - real (mask_sum group_mask))
                          / real (length gids)) powr alpha))
          [0..<k] (replicate (length gids) 1) ! j =
           (if 0 \<le> gids ! j \<and> gids ! j < int k
            then (1 + (real (length gids) - real (length (filter (\<lambda>g. g = gids ! j) gids)))
                        / real (length gids)) powr alpha
            else 1)"
proof (induction k)
  case 0
  with j show ?case by simp
next
  case (Suc k)
  let ?val = "\<lambda>c. (1 + (real (length gids) - real (length (filter (\<lambda>g. g = c) gids)))
                        / real (length gids)) powr alpha"
  let ?step = "\<lambda>group_i weights.
             let group_mask = map (\<lambda>g. g = int group_i) gids
             in masked_assign weights group_mask
                  ((1 + (real (length gids) - real (mask_sum group_mask))
                          / real (length gids)) powr alpha)"
  let ?w = "fold ?step [0..<k] (replicate (length gids) 1)"
  from Suc have lw: "length ?w = length gids"
    and vw: "?w ! j = (if 0 \<le> gids ! j \<and> gids ! j < int k then ?val (gids ! j) else 1)"
    by simp_all
  have step: "?step k ?w = masked_assign ?w (map (\<lambda>g. g = int k) gids) (?val (int k))"
    by (simp add: Let_def mask_sum_map)
  have f: "fold ?step [0..<Suc k] (replicate (length gids) 1) = ?step k ?w"
    by simp
  have len: "length (?step k ?w) = length gids"
    unfolding step using lw by (simp add: masked_assign_length)
  have "?step k ?w ! j = (if gids ! j = int k then ?val (int k) else ?w ! j)"
    unfolding step using j lw by (simp add: masked_assign_nth)
  also have "\<dots> = (if 0 \<le> gids ! j \<and> gids ! j < int (Suc k) then ?val (gids ! j) else 1)"
  proof (cases "gids ! j = int k")
    case True
    then show ?thesis by simp
  next
    case False
    then have "(0 \<le> gids ! j \<and> gids ! j < int (Suc k)) = (0 \<le> gids ! j \<and> gids ! j < int k)"
      by auto
    with False vw show ?thesis by simp
  qed
  finally show ?case using len unfolding f by blast
qed

text \<open>
  Claim C7, as amended. With \<open>N\<close> training examples, every example whose group id \<open>g\<close> is one of
  the groups \<open>0, ..., len(subgroup_columns_) - 1\<close> receives the weight
  \<open>(1 + (N - count(g)) / N) ** alpha\<close>; an example outside these groups (such as one
  with group id -1) keeps the initial weight 1. For two groups of sizes 90 and 10 and
  \<open>alpha = 1\<close> the majority examples get 1.1 and the minority examples get 1.9.
\<close>

theorem robust_sampler_weight:
  "(j < length train_group_id \<and> 0 \<le> train_group_id ! j \<and>
    train_group_id ! j < int (length (subgroup_columns_names target_column subgroup_columns)) \<longrightarrow>
      robust_sampler_weights train_group_id
          (length (subgroup_columns_names target_column subgroup_columns)) alpha ! j
        = (1 + (real (length train_group_id)
                 - real (length (filter (\<lambda>g. g = train_group_id ! j) train_group_id)))
               / real (length train_group_id)) powr alpha) \<and>
   (j < length train_group_id \<and> (train_group_id ! j < 0 \<or>
    int (length (subgroup_columns_names target_column subgroup_columns)) \<le> train_group_id ! j) \<longrightarrow>
      robust_sampler_weights train_group_id
          (length (subgroup_columns_names target_column subgroup_columns)) alpha ! j = 1) \<and>
   length (robust_sampler_weights train_group_id
          (length (subgroup_columns_names target_column subgroup_columns)) alpha)
     = length train_group_id \<and>
   robust_sampler_weights (replicate 90 0 @ replicate 10 1)
       (length (subgroup_columns_names target_column [])) 1
     = replicate 90 (11 / 10) @ replicate 10 (19 / 10)"
proof (intro conjI impI)
  assume h: "j < length train_group_id \<and> 0 \<le> train_group_id ! j \<and>
    train_group_id ! j < int (length (subgroup_columns_names target_column subgroup_columns))"
  then have j: "j < length train_group_id" by simp
  from weights_loop [OF j, of alpha "length (subgroup_columns_names target_column subgroup_columns)"] h
  show "robust_sampler_weights train_group_id
          (length (subgroup_columns_names target_column subgroup_columns)) alpha ! j
        = (1 + (real (length train_group_id)
                 - real (length (filter (\<lambda>g. g = train_group_id ! j) train_group_id)))
               / real (length train_group_id)) powr alpha"
    unfolding robust_sampler_weights_def by simp
next
  assume h: "j < length train_group_id \<and> (train_group_id ! j < 0 \<or>
    int (length (subgroup_columns_names target_column subgroup_columns)) \<le> train_group_id ! j)"
  then have j: "j < length train_group_id" by simp
  from h have "\<not> (0 \<le> train_group_id ! j \<and>
    train_group_id ! j < int (length (subgroup_columns_names target_column subgroup_columns)))"
    by auto
  with weights_loop [OF j, of alpha "length (subgroup_columns_names target_column subgroup_columns)"]
  show "robust_sampler_weights train_group_id
          (length (subgroup_columns_names target_column subgroup_columns)) alpha ! j = 1"
    unfolding robust_sampler_weights_def by simp
next
  show "length (robust_sampler_weights train_group_id
          (length (subgroup_columns_names target_column subgroup_columns)) alpha)
     = length train_group_id"
  proof (cases train_group_id)
    case Nil
    have "fold f xs [] = ([] :: real list)"
      if "\<And>i w. f i [] = []" for f :: "nat \<Rightarrow> real list \<Rightarrow> real list" and xs
      using that by (induction xs) simp_all
    then show ?thesis unfolding robust_sampler_weights_def Nil
      by (simp add: masked_assign_def)
  next
    case (Cons a list)
    then have "0 < length train_group_id" by simp
    from weights_loop [OF this, of alpha "length (subgroup_columns_names target_column subgroup_columns)"]
    show ?thesis unfolding robust_sampler_weights_def by simp
  qed
next
  let ?g = "replicate 90 0 @ replicate 10 (1::int)"
  let ?w = "robust_sampler_weights ?g (length (subgroup_columns_names target_column [])) 1"
  have n: "length (subgroup_columns_names target_column []) = 2"
    by (simp add: names_length)
  have lg: "length ?g = 100" by simp
  have c0: "length (filter (\<lambda>g. g = 0) ?g) = 90" by simp
  have c1: "length (filter (\<lambda>g. g = 1) ?g) = 10" by simp
  have gj: "?g ! j = (if j < 90 then 0 else 1)" if "j < 100" for j
    using that by (simp add: nth_append)
  have wj: "?w ! j = (if j < 90 then 11 / 10 else 19 / 10)" if "j < 100" for j
  proof -
    from that have j: "j < length ?g" by simp
    from weights_loop [OF j, of 1 2] have
      "?w ! j = (if 0 \<le> ?g ! j \<and> ?g ! j < int 2
            then (1 + (real (length ?g) - real (length (filter (\<lambda>g. g = ?g ! j) ?g)))
                        / real (length ?g)) powr 1
            else 1)"
      unfolding robust_sampler_weights_def n by blast
    then show ?thesis unfolding gj [OF that]
      by (cases "j < 90") (simp_all only: if_True if_False c0 c1 lg, simp_all)
  qed
  have lw: "length ?w = 100"
    using weights_loop [of 0 ?g 1 2] unfolding robust_sampler_weights_def n by simp
  show "?w = replicate 90 (11 / 10) @ replicate 10 (19 / 10)"
  proof (rule nth_equalityI)
    show "length ?w = length (replicate 90 (11 / 10 :: real) @ replicate 10 (19 / 10))"
      using lw by simp
  next
    fix i assume "i < length ?w"
    with lw have i: "i < 100" by simp
    show "?w ! i = (replicate 90 (11 / 10) @ replicate 10 (19 / 10)) ! i"
      unfolding wj [OF i] using i by (simp add: nth_append)
  qed
qed

text \<open>
  The theorem at example 95 (minority) and example 5 (majority) of the 90/10 split, and
  at an example with group id -1.
\<close>

theorem robust_sampler_weight_witness:
  "(95::nat) < length (replicate 90 0 @ replicate 10 (1::int)) \<and>
   0 \<le> (replicate 90 0 @ replicate 10 (1::int)) ! 95 \<and>
   (replicate 90 0 @ replicate 10 (1::int)) ! 95 < int (length (subgroup_columns_names ''pmx'' [])) \<and>
   robust_sampler_weights (replicate 90 0 @ replicate 10 1)
       (length (subgroup_columns_names ''pmx'' [])) 1 ! 95 = 19 / 10 \<and>
   robust_sampler_weights (replicate 90 0 @ replicate 10 1)
       (length (subgroup_columns_names ''pmx'' [])) 1 ! 5 = 11 / 10 \<and>
   (1::nat) < length [0, - 1, 1 :: int] \<and> [0, - 1, 1 :: int] ! 1 < 0 \<and>
   robust_sampler_weights [0, - 1, 1]
       (length (subgroup_columns_names ''pmx'' [])) 2 ! 1 = 1"
  using robust_sampler_weight [of 95 "replicate 90 0 @ replicate 10 1" "''pmx''" "[]" 1]
        robust_sampler_weight [of 1 "[0, - 1, 1]" "''pmx''" "[]" 2]
  by (simp add: nth_append names_length)

text \<open>
  Claim C7 as stated fails for an example whose group id is none of the groups the loop
  visits. With no subgroup column the groups are 0 and 1; among the three examples of
  groups 0, 2 and 1 the second keeps the weight 1, where the formula of the claim gives
  \<open>(1 + (3 - 1) / 3) ** 1 = 5 / 3\<close>.
\<close>

theorem robust_sampler_weight_unvisited_group:
  "robust_sampler_weights [0, 2, 1] (length (subgroup_columns_names ''target'' [])) 1 ! 1 = 1 \<and>
   (1 + (real (length [0, 2, 1 :: int])
          - real (length (filter (\<lambda>g. g = [0, 2, 1 :: int] ! 1) [0, 2, 1])))
        / real (length [0, 2, 1 :: int])) powr 1 = 5 / 3"
proof -
  have j: "(1::nat) < length [0, 2, 1 :: int]" by simp
  have n: "length (subgroup_columns_names ''target'' []) = 2"
    by (simp add: names_length)
  have "robust_sampler_weights [0, 2, 1] 2 1 ! 1 = 1"
    using weights_loop [OF j, of 1 2] unfolding robust_sampler_weights_def by simp
  then show ?thesis unfolding n by simp
qed

end
